theory Spec2Isabelle
  imports Complex_Main "HOL-Library.Option_ord"
begin

section \<open>Numbers\<close>

text \<open>
  The amounts stored by the application are decimal values (\<open>numeric\<close> columns with the
  check \<open>amount >= 0\<close>); the pages read them with \<open>Number(t.amount)\<close> and compute with
  JavaScript numbers. For the totals and the breakdown by category the amounts are
  modelled as rationals, so sums, differences and comparisons are exact (the rounding of
  IEEE doubles is added in the next section, for the results that depend on it). What is
  modelled of the doubles here is the result of a division: \<open>x / 0\<close> does not raise in JavaScript, it
  yields \<open>NaN\<close> for \<open>0 / 0\<close> and an infinity otherwise, and these values propagate
  through the multiplication by 100 and compare \<open>false\<close> (\<open>NaN\<close>) as in the language.
\<close>

datatype jsnum = Num rat | NaN | PosInfinity | NegInfinity

definition js_div :: "rat \<Rightarrow> rat \<Rightarrow> jsnum" where
  "js_div a b =
     (if b \<noteq> 0 then Num (a / b)
      else if a = 0 then NaN
      else if 0 < a then PosInfinity
      else NegInfinity)"

text \<open>Multiplication of a JavaScript number by a positive finite constant.\<close>

fun js_times :: "jsnum \<Rightarrow> rat \<Rightarrow> jsnum" where
  "js_times (Num x) c = Num (x * c)"
| "js_times NaN c = NaN"
| "js_times PosInfinity c = PosInfinity"
| "js_times NegInfinity c = NegInfinity"

text \<open>The comparison \<open>x >= c\<close> against a finite constant.\<close>

fun js_ge :: "jsnum \<Rightarrow> rat \<Rightarrow> bool" where
  "js_ge (Num x) c = (c \<le> x)"
| "js_ge NaN c = False"
| "js_ge PosInfinity c = True"
| "js_ge NegInfinity c = False"

text \<open>Addition of JavaScript numbers, as the chart's running offset uses it.\<close>

fun js_plus :: "jsnum \<Rightarrow> jsnum \<Rightarrow> jsnum" where
  "js_plus (Num x) (Num y) = Num (x + y)"
| "js_plus NaN _ = NaN"
| "js_plus _ NaN = NaN"
| "js_plus PosInfinity NegInfinity = NaN"
| "js_plus NegInfinity PosInfinity = NaN"
| "js_plus PosInfinity _ = PosInfinity"
| "js_plus _ PosInfinity = PosInfinity"
| "js_plus NegInfinity _ = NegInfinity"
| "js_plus _ NegInfinity = NegInfinity"

text \<open>Decimal rendering of an integer, as a template literal renders \<open>${n}\<close>.\<close>

fun showNat :: "nat \<Rightarrow> string" where
  "showNat n =
     (if n < 10 then [''0123456789'' ! n]
      else showNat (n div 10) @ [''0123456789'' ! (n mod 10)])"

definition showInt :: "int \<Rightarrow> string" where
  "showInt i = (if i < 0 then CHR ''-'' # showNat (nat (- i)) else showNat (nat i))"

section \<open>Numbers as IEEE doubles\<close>

text \<open>
  Where a result depends on the rounding of the arithmetic (the side of a threshold on
  which a percentage falls, whether two sums are equal), the JavaScript numbers are
  modelled as what they are: IEEE 754 binary64 values, each operation rounding its
  exact result to the nearest such value, ties to the even significand. A finite
  double is carried as the rational it denotes (the sign of a zero is not kept).
\<close>

text \<open>The number of binary digits of a positive integer.\<close>

function bitLength :: "int \<Rightarrow> int" where
  "bitLength n = (if n \<le> 0 then 0 else 1 + bitLength (n div 2))"
  by pat_completeness auto
termination
  by (relation "measure nat") auto

definition pow2 :: "int \<Rightarrow> rat" where
  "pow2 e = (if 0 \<le> e then 2 ^ nat e else 1 / 2 ^ nat (- e))"

text \<open>For \<open>x > 0\<close>, the exponent \<open>e\<close> with \<open>2^e \<le> x < 2^(e + 1)\<close>.\<close>

definition floorLog2 :: "rat \<Rightarrow> int" where
  "floorLog2 x = (if 1 \<le> x then bitLength \<lfloor>x\<rfloor> - 1 else - bitLength (\<lceil>1 / x\<rceil> - 1))"

definition roundHalfEven :: "rat \<Rightarrow> int" where
  "roundHalfEven q =
     (let f = \<lfloor>q\<rfloor>; r = q - of_int f
      in if r < 1 / 2 then f else if 1 / 2 < r then f + 1 else if even f then f else f + 1)"

text \<open>
  The double nearest to a rational: its magnitude rounded to 53 significant bits, the
  exponent not below that of the subnormal numbers, and an infinity from \<open>2^1024\<close> on.
  This is also \<open>Number(x)\<close> for a decimal \<open>x\<close> that the store delivers.
\<close>

definition roundMagnitude :: "rat \<Rightarrow> rat" where
  "roundMagnitude a =
     (let e = max (floorLog2 a) (- 1022);
          ulp = pow2 (e - 52)
      in of_int (roundHalfEven (a / ulp)) * ulp)"

definition toDouble :: "rat \<Rightarrow> jsnum" where
  "toDouble x =
     (if x = 0 then Num 0
      else (let y = roundMagnitude \<bar>x\<bar>
            in if pow2 1024 \<le> y then (if 0 < x then PosInfinity else NegInfinity)
               else Num (if 0 < x then y else - y)))"

fun dbl_add :: "jsnum \<Rightarrow> jsnum \<Rightarrow> jsnum" where
  "dbl_add (Num x) (Num y) = toDouble (x + y)"
| "dbl_add NaN _ = NaN"
| "dbl_add _ NaN = NaN"
| "dbl_add PosInfinity NegInfinity = NaN"
| "dbl_add NegInfinity PosInfinity = NaN"
| "dbl_add PosInfinity _ = PosInfinity"
| "dbl_add _ PosInfinity = PosInfinity"
| "dbl_add NegInfinity _ = NegInfinity"
| "dbl_add _ NegInfinity = NegInfinity"

fun dbl_neg :: "jsnum \<Rightarrow> jsnum" where
  "dbl_neg (Num x) = Num (- x)"
| "dbl_neg NaN = NaN"
| "dbl_neg PosInfinity = NegInfinity"
| "dbl_neg NegInfinity = PosInfinity"

definition dbl_sub :: "jsnum \<Rightarrow> jsnum \<Rightarrow> jsnum" where
  "dbl_sub a b = dbl_add a (dbl_neg b)"

fun dbl_mul :: "jsnum \<Rightarrow> jsnum \<Rightarrow> jsnum" where
  "dbl_mul (Num x) (Num y) = toDouble (x * y)"
| "dbl_mul NaN _ = NaN"
| "dbl_mul _ NaN = NaN"
| "dbl_mul PosInfinity (Num y) = (if y = 0 then NaN else if 0 < y then PosInfinity else NegInfinity)"
| "dbl_mul NegInfinity (Num y) = (if y = 0 then NaN else if 0 < y then NegInfinity else PosInfinity)"
| "dbl_mul (Num x) PosInfinity = (if x = 0 then NaN else if 0 < x then PosInfinity else NegInfinity)"
| "dbl_mul (Num x) NegInfinity = (if x = 0 then NaN else if 0 < x then NegInfinity else PosInfinity)"
| "dbl_mul PosInfinity PosInfinity = PosInfinity"
| "dbl_mul NegInfinity NegInfinity = PosInfinity"
| "dbl_mul PosInfinity NegInfinity = NegInfinity"
| "dbl_mul NegInfinity PosInfinity = NegInfinity"

fun dbl_div :: "jsnum \<Rightarrow> jsnum \<Rightarrow> jsnum" where
  "dbl_div (Num a) (Num b) =
     (if b \<noteq> 0 then toDouble (a / b)
      else if a = 0 then NaN
      else if 0 < a then PosInfinity
      else NegInfinity)"
| "dbl_div NaN _ = NaN"
| "dbl_div _ NaN = NaN"
| "dbl_div (Num a) _ = Num 0"
| "dbl_div PosInfinity (Num b) = (if 0 \<le> b then PosInfinity else NegInfinity)"
| "dbl_div NegInfinity (Num b) = (if 0 \<le> b then NegInfinity else PosInfinity)"
| "dbl_div _ _ = NaN"

text \<open>The comparison \<open>a > b\<close> of two numbers.\<close>

fun js_gt :: "jsnum \<Rightarrow> jsnum \<Rightarrow> bool" where
  "js_gt (Num x) (Num y) = (y < x)"
| "js_gt NaN _ = False"
| "js_gt _ NaN = False"
| "js_gt PosInfinity PosInfinity = False"
| "js_gt PosInfinity _ = True"
| "js_gt _ PosInfinity = False"
| "js_gt NegInfinity _ = False"
| "js_gt _ NegInfinity = True"


section \<open>Reminders: days until due, status badge, upcoming bills\<close>

text \<open>
  \<open>new Date()\<close> is read through \<open>getFullYear()\<close>, \<open>getMonth()\<close> (0 for January to 11 for
  December) and \<open>getDate()\<close> (the day of the month). The current date is a parameter of
  every function that reads the clock.
\<close>

record JSDate =
  getFullYear :: int
  getMonth :: int
  getDate :: int

definition isLeapYear :: "int \<Rightarrow> bool" where
  "isLeapYear y \<longleftrightarrow> (y mod 4 = 0 \<and> y mod 100 \<noteq> 0) \<or> y mod 400 = 0"

text \<open>
  \<open>new Date(y, m + 1, 0).getDate()\<close>: day 0 of the next month is the last day of month
  \<open>m\<close> of year \<open>y\<close> in the Gregorian calendar, for \<open>m\<close> from 0 to 11.
\<close>

definition lastDayOfMonth :: "int \<Rightarrow> int \<Rightarrow> int" where
  "lastDayOfMonth y m =
     (if m = 1 then (if isLeapYear y then 29 else 28)
      else if m = 3 \<or> m = 5 \<or> m = 8 \<or> m = 10 then 30
      else 31)"

text \<open>The dates a clock can return.\<close>

definition validDate :: "JSDate \<Rightarrow> bool" where
  "validDate d \<longleftrightarrow>
     0 \<le> getMonth d \<and> getMonth d \<le> 11 \<and>
     1 \<le> getDate d \<and> getDate d \<le> lastDayOfMonth (getFullYear d) (getMonth d)"


definition getDaysUntilDue :: "JSDate \<Rightarrow> int \<Rightarrow> int" where
  "getDaysUntilDue now dueDate =
     (let today = getDate now;
          days = dueDate - today
      in if days < 0
         then (let daysInMonth = lastDayOfMonth (getFullYear now) (getMonth now)
               in daysInMonth - today + dueDate)
         else days)"

text \<open>The ordinal suffix of a day of the month (1 to 31).\<close>

definition getDaySuffix :: "int \<Rightarrow> string" where
  "getDaySuffix day =
     (if 11 \<le> day \<and> day \<le> 13 then ''th''
      else if day mod 10 = 1 then ''st''
      else if day mod 10 = 2 then ''nd''
      else if day mod 10 = 3 then ''rd''
      else ''th'')"

record Badge =
  "text" :: string
  className :: string

definition getStatusBadge :: "JSDate \<Rightarrow> int \<Rightarrow> bool \<Rightarrow> Badge" where
  "getStatusBadge now dueDate isActive =
     (if \<not> isActive then
        \<lparr>text = ''Inactive'',
         className = ''bg-slate-100 text-slate-600 dark:bg-slate-700 dark:text-slate-400''\<rparr>
      else
        (let daysUntil = getDaysUntilDue now dueDate
         in if daysUntil = 0 then
              \<lparr>text = ''Due Today'',
               className = ''bg-red-100 text-red-800 dark:bg-red-900/30 dark:text-red-400''\<rparr>
            else if daysUntil \<le> 3 then
              \<lparr>text = ''Due in '' @ showInt daysUntil @ '' days'',
               className = ''bg-amber-100 text-amber-800 dark:bg-amber-900/30 dark:text-amber-400''\<rparr>
            else if daysUntil \<le> 7 then
              \<lparr>text = ''Due in '' @ showInt daysUntil @ '' days'',
               className = ''bg-blue-100 text-blue-800 dark:bg-blue-900/30 dark:text-blue-400''\<rparr>
            else
              \<lparr>text = ''Due on '' @ showInt dueDate @ getDaySuffix dueDate,
               className = ''bg-green-100 text-green-800 dark:bg-green-900/30 dark:text-green-400''\<rparr>))"

text \<open>
  The five urgency classes of the specification, and the class a badge shows: each class
  has its own colour scheme (the texts of the second and third class coincide).
\<close>

datatype Urgency = Inactive | DueToday | Imminent | Upcoming | Scheduled

definition badgeUrgency :: "Badge \<Rightarrow> Urgency option" where
  "badgeUrgency b =
     (if take 8 (className b) = ''bg-slate'' then Some Inactive
      else if take 6 (className b) = ''bg-red'' then Some DueToday
      else if take 8 (className b) = ''bg-amber'' then Some Imminent
      else if take 7 (className b) = ''bg-blue'' then Some Upcoming
      else if take 8 (className b) = ''bg-green'' then Some Scheduled
      else None)"




section \<open>Budget: percentage used and progress colour\<close>

text \<open>
  The fields of a budget row (with the spending joined to it) that are computed on, both
  JavaScript numbers: the amount as parsed from the store's decimal, the spending as
  added up from the expenses of the category.
\<close>

record Budget =
  amount :: jsnum
  spent :: jsnum

text \<open>
  The two constants computed for each budget card:
  \<open>percentage = (budget.spent / budget.amount) * 100\<close> and
  \<open>remaining = budget.amount - budget.spent\<close>.
\<close>

definition budgetPercentage :: "Budget \<Rightarrow> jsnum" where
  "budgetPercentage budget = dbl_mul (dbl_div (spent budget) (Budget.amount budget)) (Num 100)"

definition budgetRemaining :: "Budget \<Rightarrow> jsnum" where
  "budgetRemaining budget = dbl_sub (Budget.amount budget) (spent budget)"

text \<open>
  Where the spending comes from (\<open>loadBudgets\<close>): the expenses of the month, each a
  category id and an amount, are added up by category id,
  \<open>spentByCategory[id] = (spentByCategory[id] || 0) + Number(amount)\<close>, and a budget
  gets \<open>spentByCategory[budget.category_id] || 0\<close>.
\<close>

fun orZero :: "jsnum option \<Rightarrow> jsnum" where
  "orZero None = Num 0"
| "orZero (Some NaN) = Num 0"
| "orZero (Some v) = v"

definition spendStep :: "(string \<rightharpoonup> jsnum) \<Rightarrow> string \<times> rat \<Rightarrow> (string \<rightharpoonup> jsnum)" where
  "spendStep m t = m(fst t \<mapsto> dbl_add (orZero (m (fst t))) (toDouble (snd t)))"

definition spentByCategory :: "(string \<times> rat) list \<Rightarrow> (string \<rightharpoonup> jsnum)" where
  "spentByCategory rows = foldl spendStep Map.empty rows"

definition withSpent :: "(string \<times> rat) list \<Rightarrow> string \<Rightarrow> rat \<Rightarrow> Budget" where
  "withSpent rows category_id limit =
     \<lparr>Budget.amount = toDouble limit, spent = orZero (spentByCategory rows category_id)\<rparr>"

definition getProgressColor :: "jsnum \<Rightarrow> string" where
  "getProgressColor p =
     (if js_ge p 100 then ''bg-red-600''
      else if js_ge p 80 then ''bg-amber-600''
      else ''bg-green-600'')"

section \<open>Aggregation: totals, breakdown by category, monthly series\<close>

text \<open>
  An entry of the breakdown by category as the analytics page holds it, the amount and
  the percentage being JavaScript numbers.
\<close>

record CategoryExpenseDbl =
  name :: string
  amount :: jsnum
  color :: string
  percentage :: jsnum

text \<open>
  A transaction row as the pages receive it: its \<open>type\<close> (the column admits
  \<open>'income'\<close> and \<open>'expense'\<close> only), its amount, and the joined category
  (\<open>categories (name, color)\<close>), which is null when the reference resolves to no row.
\<close>

datatype TxType = Income | Expense

record Category =
  name :: string
  color :: string

record Transaction =
  type :: TxType
  amount :: rat
  categories :: "Category option"

subsection \<open>Dashboard totals\<close>

record Stats =
  totalIncome :: rat
  totalExpenses :: rat
  totalSavings :: rat
  monthlyChange :: rat

text \<open>
  The statistics of \<open>loadData\<close>: two \<open>filter(...).reduce((sum, t) => sum + Number(t.amount), 0)\<close>
  chains and their difference.
\<close>

definition loadData :: "Transaction list \<Rightarrow> Stats" where
  "loadData transactions =
     (let income = foldl (\<lambda>sum t. sum + Transaction.amount t) 0
                     (filter (\<lambda>t. type t = Income) transactions);
          expenses = foldl (\<lambda>sum t. sum + Transaction.amount t) 0
                     (filter (\<lambda>t. type t = Expense) transactions)
      in \<lparr>totalIncome = income, totalExpenses = expenses,
          totalSavings = income - expenses, monthlyChange = 25 / 2\<rparr>)"

subsection \<open>Monthly series\<close>

record MonthlyData =
  month :: string
  income :: rat
  expense :: rat
  savings :: rat

definition monthNames :: "string list" where
  "monthNames = [''Jan'', ''Feb'', ''Mar'', ''Apr'', ''May'', ''Jun'',
                 ''Jul'', ''Aug'', ''Sep'', ''Oct'', ''Nov'', ''Dec'']"

text \<open>
  The body of the \<open>data.forEach\<close> of one month: a row that is not an income row is
  added to the expenses.
\<close>

definition monthStep :: "rat \<times> rat \<Rightarrow> Transaction \<Rightarrow> rat \<times> rat" where
  "monthStep acc t =
     (case acc of (incomeAcc, expenseAcc) \<Rightarrow>
        if type t = Income then (incomeAcc + Transaction.amount t, expenseAcc)
        else (incomeAcc, expenseAcc + Transaction.amount t))"

definition monthEntry :: "int \<Rightarrow> Transaction list \<Rightarrow> MonthlyData" where
  "monthEntry targetMonth data =
     (case foldl monthStep (0, 0) data of (incomeAcc, expenseAcc) \<Rightarrow>
        \<lparr>month = monthNames ! nat (targetMonth - 1),
         income = incomeAcc, expense = expenseAcc, savings = incomeAcc - expenseAcc\<rparr>)"

text \<open>
  The loop \<open>for (let i = 5; i >= 0; i--)\<close>. \<open>new Date(currentYear, currentMonth - 1 - i, 1)\<close>
  normalises a month index below 0 into the previous year; \<open>fetch y m\<close> stands for the
  rows the store returns for the days of month \<open>m\<close> (1 to 12) of year \<open>y\<close>.
\<close>

definition monthlyStats :: "JSDate \<Rightarrow> (int \<Rightarrow> int \<Rightarrow> Transaction list) \<Rightarrow> MonthlyData list" where
  "monthlyStats now fetch =
     map (\<lambda>i. let currentMonth = getMonth now + 1;
                   currentYear = getFullYear now;
                   m = currentMonth - 1 - i;
                   targetMonth = m mod 12 + 1;
                   targetYear = currentYear + m div 12
               in monthEntry targetMonth (fetch targetYear targetMonth))
         [5, 4, 3, 2, 1, 0]"

subsection \<open>Expenses by category\<close>

text \<open>
  \<open>t.categories?.name || 'Other'\<close> and \<open>t.categories?.color || '#6366f1'\<close>: the default is
  taken when the category is null and also when the string is empty (falsy).
\<close>

definition categoryNameOf :: "Transaction \<Rightarrow> string" where
  "categoryNameOf t =
     (case categories t of
        None \<Rightarrow> ''Other''
      | Some c \<Rightarrow> if name c = [] then ''Other'' else name c)"

definition categoryColorOf :: "Transaction \<Rightarrow> string" where
  "categoryColorOf t =
     (case categories t of
        None \<Rightarrow> ''#6366f1''
      | Some c \<Rightarrow> if color c = [] then ''#6366f1'' else color c)"

text \<open>
  The accumulator \<open>expensesByCategory\<close> is a plain object created by \<open>{}\<close>. Its own
  properties are kept in creation order as triples of key, \<open>amount\<close> and \<open>color\<close>. A
  property read on it also finds what every plain object inherits from
  \<open>Object.prototype\<close>; all of these inherited values are functions or objects, hence
  truthy.
\<close>

type_synonym expenses = "(string \<times> rat \<times> string) list"

definition objectPrototypeKeys :: "string list" where
  "objectPrototypeKeys =
     [''constructor'', ''__defineGetter__'', ''__defineSetter__'', ''hasOwnProperty'',
      ''__lookupGetter__'', ''__lookupSetter__'', ''isPrototypeOf'',
      ''propertyIsEnumerable'', ''toString'', ''valueOf'', ''__proto__'',
      ''toLocaleString'']"

text \<open>\<open>expensesByCategory[key]\<close> is truthy: an own entry, or an inherited member.\<close>

definition truthyAt :: "expenses \<Rightarrow> string \<Rightarrow> bool" where
  "truthyAt obj key \<longleftrightarrow> key \<in> fst ` set obj \<or> key \<in> set objectPrototypeKeys"

text \<open>
  \<open>expensesByCategory[key].amount += amount\<close>. When the key names no own entry the
  object read is an inherited one, and the write lands there, outside the accumulator.
\<close>

fun addAmount :: "string \<Rightarrow> rat \<Rightarrow> expenses \<Rightarrow> expenses" where
  "addAmount key a [] = []"
| "addAmount key a ((k, s, c) # es) =
     (if k = key then (k, s + a, c) # es else (k, s, c) # addAmount key a es)"

definition expenseStep :: "expenses \<times> rat \<Rightarrow> Transaction \<Rightarrow> expenses \<times> rat" where
  "expenseStep acc t =
     (case acc of (expensesByCategory, totalExpense) \<Rightarrow>
        if type t = Expense then
          (let categoryName = categoryNameOf t;
               categoryColor = categoryColorOf t;
               amount = Transaction.amount t;
               created = (if \<not> truthyAt expensesByCategory categoryName
                          then expensesByCategory @ [(categoryName, 0, categoryColor)]
                          else expensesByCategory)
           in (addAmount categoryName amount created, totalExpense + amount))
        else (expensesByCategory, totalExpense))"

text \<open>
  \<open>Object.entries\<close> lists the own properties whose key is an array index (a canonical
  decimal numeral up to \<open>2^32 - 2\<close>) first, in ascending numeric order, and then the
  other keys in creation order.
\<close>

definition digitValue :: "char \<Rightarrow> nat" where
  "digitValue c = length (takeWhile (\<lambda>d. d \<noteq> c) ''0123456789'')"

definition indexValue :: "string \<Rightarrow> int" where
  "indexValue s = foldl (\<lambda>v c. 10 * v + int (digitValue c)) 0 s"

definition isArrayIndex :: "string \<Rightarrow> bool" where
  "isArrayIndex s \<longleftrightarrow>
     s \<noteq> [] \<and> list_all (\<lambda>c. digitValue c < 10) s
     \<and> (s = ''0'' \<or> hd s \<noteq> CHR ''0'') \<and> indexValue s \<le> 4294967294"

definition objectEntries :: "expenses \<Rightarrow> expenses" where
  "objectEntries obj =
     sort_key (\<lambda>e. indexValue (fst e)) (filter (\<lambda>e. isArrayIndex (fst e)) obj)
     @ filter (\<lambda>e. \<not> isArrayIndex (fst e)) obj"

record CategoryExpense =
  name :: string
  amount :: rat
  color :: string
  percentage :: jsnum

text \<open>
  \<open>Array.prototype.sort\<close> is stable; with the comparator \<open>(a, b) => b.amount - a.amount\<close> it
  orders by descending amount.
\<close>

definition sortByAmountDesc :: "CategoryExpense list \<Rightarrow> CategoryExpense list" where
  "sortByAmountDesc = sort_key (\<lambda>e. - CategoryExpense.amount e)"

definition categoryData :: "Transaction list \<Rightarrow> CategoryExpense list" where
  "categoryData transactions =
     (case foldl expenseStep ([], 0) transactions of (expensesByCategory, totalExpense) \<Rightarrow>
        sortByAmountDesc
          (map (\<lambda>(key, a, c).
                  \<lparr>CategoryExpense.name = key, amount = a, color = c,
                   percentage = js_times (js_div a totalExpense) 100\<rparr>)
               (objectEntries expensesByCategory)))"

text \<open>The total that the same loop accumulates.\<close>

definition totalExpense :: "Transaction list \<Rightarrow> rat" where
  "totalExpense transactions = snd (foldl expenseStep ([], 0) transactions)"

text \<open>The running offset of the donut chart: the percentages added up from 0.\<close>

definition chartOffset :: "CategoryExpense list \<Rightarrow> jsnum" where
  "chartOffset categoryExpenses =
     foldl (\<lambda>offset category. js_plus offset (percentage category)) (Num 0) categoryExpenses"

subsection \<open>Expenses by category, the numbers as doubles\<close>










subsection \<open>What the breakdown is compared with\<close>

text \<open>
  The notions in which the specification describes the breakdown: the names in the order
  in which they are first encountered, the summed amount of a category, and the colour
  of the first expense record of a category.
\<close>

fun firstEncountered :: "'a list \<Rightarrow> 'a list" where
  "firstEncountered [] = []"
| "firstEncountered (x # xs) = x # removeAll x (firstEncountered xs)"

definition inCategory :: "string \<Rightarrow> Transaction \<Rightarrow> bool" where
  "inCategory n t \<longleftrightarrow> type t = Expense \<and> categoryNameOf t = n"

definition catTotal :: "Transaction list \<Rightarrow> string \<Rightarrow> rat" where
  "catTotal ts n = sum_list (map Transaction.amount (filter (inCategory n) ts))"

definition firstColor :: "Transaction list \<Rightarrow> string \<Rightarrow> string" where
  "firstColor ts n = (case List.find (inCategory n) ts of None \<Rightarrow> [] | Some t \<Rightarrow> categoryColorOf t)"

definition sumExpenses :: "Transaction list \<Rightarrow> rat" where
  "sumExpenses ts = sum_list (map Transaction.amount (filter (\<lambda>t. type t = Expense) ts))"


definition expenseNames :: "Transaction list \<Rightarrow> string list" where
  "expenseNames ts = map categoryNameOf (filter (\<lambda>t. type t = Expense) ts)"

text \<open>
  The names that get an entry of their own: a name that an empty object already
  inherits never does.
\<close>

definition breakdownKeys :: "Transaction list \<Rightarrow> string list" where
  "breakdownKeys ts =
     firstEncountered (filter (\<lambda>n. n \<notin> set objectPrototypeKeys) (expenseNames ts))"

text \<open>The order in which \<open>Object.entries\<close> lists a set of keys.\<close>

definition keyOrder :: "string list \<Rightarrow> string list" where
  "keyOrder ks = sort_key indexValue (filter isArrayIndex ks) @ filter (\<lambda>k. \<not> isArrayIndex k) ks"

text \<open>The entry of a category: its summed amount, first colour and share of the total.\<close>

definition entryOf :: "Transaction list \<Rightarrow> string \<Rightarrow> CategoryExpense" where
  "entryOf ts n =
     \<lparr>CategoryExpense.name = n, amount = catTotal ts n, color = firstColor ts n,
      percentage = js_times (js_div (catTotal ts n) (sumExpenses ts)) 100\<rparr>"






subsection \<open>Example record lists\<close>

definition expenseOf :: "rat \<Rightarrow> string \<Rightarrow> string \<Rightarrow> Transaction" where
  "expenseOf a n c =
     \<lparr>type = Expense, Transaction.amount = a,
      categories = Some \<lparr>Category.name = n, color = c\<rparr>\<rparr>"

definition uncategorized :: "rat \<Rightarrow> Transaction" where
  "uncategorized a = \<lparr>type = Expense, Transaction.amount = a, categories = None\<rparr>"

text \<open>The scenario of March 2024 of the specification.\<close>

definition marchRecords :: "Transaction list" where
  "marchRecords =
     [\<lparr>type = Income, Transaction.amount = 1000,
       categories = Some \<lparr>Category.name = ''Salary'', color = ''#10b981''\<rparr>\<rparr>,
      expenseOf 300 ''Food'' ''#f59e0b'',
      expenseOf 200 ''Transport'' ''#8b5cf6'']"

text \<open>Two categories with the same total around a larger one.\<close>

definition tiedRecords :: "Transaction list" where
  "tiedRecords =
     [expenseOf 10 ''Rent'' ''#ef4444'', expenseOf 20 ''Food'' ''#f59e0b'',
      expenseOf 10 ''Fuel'' ''#8b5cf6'']"

text \<open>Two categories with the same total, the second one named by a numeral.\<close>

definition numeralNamedRecords :: "Transaction list" where
  "numeralNamedRecords = [expenseOf 10 ''Food'' ''#f59e0b'', expenseOf 10 ''2024'' ''#8b5cf6'']"

text \<open>Two categories whose decimal totals are equal and whose rounded sums are not.\<close>

definition roundedRecords :: "Transaction list" where
  "roundedRecords =
     [expenseOf (3 / 10) ''Fuel'' ''#8b5cf6'', expenseOf (1 / 10) ''Food'' ''#f59e0b'',
      expenseOf (2 / 10) ''Food'' ''#f59e0b'']"

text \<open>A category that the user named Other, followed by a record without category.\<close>

definition otherNamedRecords :: "Transaction list" where
  "otherNamedRecords = [expenseOf 5 ''Other'' ''#ff0000'', uncategorized 3]"

definition mixedRecords :: "Transaction list" where
  "mixedRecords = [expenseOf 300 ''Food'' ''#f59e0b'', uncategorized 3]"

text \<open>A category named like a member that every object inherits.\<close>

definition inheritedNamedRecords :: "Transaction list" where
  "inheritedNamedRecords =
     [expenseOf 5 ''constructor'' ''#ef4444'', expenseOf 5 ''Food'' ''#f59e0b'']"

text \<open>A single expense of amount 0, which the store's check \<open>amount >= 0\<close> admits.\<close>

definition zeroRecords :: "Transaction list" where
  "zeroRecords = [uncategorized 0]"

section \<open>The computations on a store of objects\<close>

text \<open>
  The functions above compute on values. Whether a computation writes to the objects
  it is given is a question about references, so the same code is given a second time
  over an explicit store: an object or array lives at an address, a value may refer to
  one, and object literals, \<open>filter\<close>, \<open>map\<close>, \<open>slice\<close> and \<open>Object.entries\<close> allocate,
  while a property assignment, \<open>+=\<close> on a property, \<open>push\<close> and \<open>sort\<close> write in place.
\<close>

type_synonym addr = nat

datatype jsval = JNum jsnum | JStr string | JRef addr | JNull | JUndefined

text \<open>An object is the list of its own properties in creation order.\<close>

datatype jsobj = JObject "(string \<times> jsval) list" | JArray "jsval list"

type_synonym store = "jsobj list"

definition alloc :: "store \<Rightarrow> jsobj \<Rightarrow> store \<times> addr" where
  "alloc s ob = (s @ [ob], length s)"

definition own :: "store \<Rightarrow> addr \<Rightarrow> (string \<times> jsval) list" where
  "own s a = (if a < length s then (case s ! a of JObject ps \<Rightarrow> ps | JArray vs \<Rightarrow> []) else [])"

definition elems :: "store \<Rightarrow> addr \<Rightarrow> jsval list" where
  "elems s a = (if a < length s then (case s ! a of JArray vs \<Rightarrow> vs | JObject ps \<Rightarrow> []) else [])"

text \<open>
  Every store begins with \<open>Object.prototype\<close> at address 0, followed by the function
  objects that are its members; its \<open>__proto__\<close> read on a plain object yields
  \<open>Object.prototype\<close> itself. These are the built-in objects.
\<close>

definition protoAddr :: addr where
  "protoAddr = 0"

definition builtin :: "addr \<Rightarrow> bool" where
  "builtin a \<longleftrightarrow> a \<le> length objectPrototypeKeys"

definition realm :: store where
  "realm =
     JObject (map (\<lambda>(i, k). (k, if k = ''__proto__'' then JRef protoAddr else JRef (Suc i)))
                  (enumerate 0 objectPrototypeKeys))
     # replicate (length objectPrototypeKeys) (JObject [])"

text \<open>
  A property read: an own property, else what \<open>Object.prototype\<close> provides, else
  \<open>undefined\<close>. On \<open>null\<close> and \<open>undefined\<close> this is the read of \<open>?.\<close>.
\<close>

definition get :: "store \<Rightarrow> jsval \<Rightarrow> string \<Rightarrow> jsval" where
  "get s v k =
     (case v of
        JRef a \<Rightarrow>
          (case map_of (own s a) k of
             Some x \<Rightarrow> x
           | None \<Rightarrow> (case map_of (own s protoAddr) k of Some x \<Rightarrow> x | None \<Rightarrow> JUndefined))
      | _ \<Rightarrow> JUndefined)"

fun putOwn :: "string \<Rightarrow> jsval \<Rightarrow> (string \<times> jsval) list \<Rightarrow> (string \<times> jsval) list" where
  "putOwn k v [] = [(k, v)]"
| "putOwn k v ((k', v') # ps) = (if k' = k then (k, v) # ps else (k', v') # putOwn k v ps)"

text \<open>A property assignment \<open>target[k] = v\<close> on an object.\<close>

definition setProp :: "store \<Rightarrow> jsval \<Rightarrow> string \<Rightarrow> jsval \<Rightarrow> store" where
  "setProp s target k v =
     (case target of
        JRef a \<Rightarrow>
          (if a < length s
           then (case s ! a of JObject ps \<Rightarrow> s[a := JObject (putOwn k v ps)] | JArray vs \<Rightarrow> s)
           else s)
      | _ \<Rightarrow> s)"

definition truthy :: "jsval \<Rightarrow> bool" where
  "truthy v =
     (case v of
        JNum x \<Rightarrow> x \<noteq> NaN \<and> x \<noteq> Num 0
      | JStr s \<Rightarrow> s \<noteq> []
      | JRef a \<Rightarrow> True
      | JNull \<Rightarrow> False
      | JUndefined \<Rightarrow> False)"

text \<open>\<open>a || b\<close>.\<close>

definition orElse :: "jsval \<Rightarrow> jsval \<Rightarrow> jsval" where
  "orElse a b = (if truthy a then a else b)"

text \<open>
  \<open>Number(v)\<close>, for the values that an amount takes: a number, \<open>null\<close> or \<open>undefined\<close>.
\<close>

definition toNumber :: "jsval \<Rightarrow> jsnum" where
  "toNumber v = (case v of JNum x \<Rightarrow> x | JNull \<Rightarrow> Num 0 | _ \<Rightarrow> NaN)"

text \<open>The property key that a value denotes; the names of categories are strings.\<close>

definition keyOf :: "jsval \<Rightarrow> string" where
  "keyOf v =
     (case v of
        JStr s \<Rightarrow> s
      | JNull \<Rightarrow> ''null''
      | JUndefined \<Rightarrow> ''undefined''
      | JRef a \<Rightarrow> ''[object Object]''
      | JNum x \<Rightarrow> ''NaN'')"

fun js_neg :: "jsnum \<Rightarrow> jsnum" where
  "js_neg (Num x) = Num (- x)"
| "js_neg NaN = NaN"
| "js_neg PosInfinity = NegInfinity"
| "js_neg NegInfinity = PosInfinity"

definition js_minus :: "jsnum \<Rightarrow> jsnum \<Rightarrow> jsnum" where
  "js_minus a b = js_plus a (js_neg b)"

text \<open>Division of JavaScript numbers (the sign of a zero is not modelled).\<close>

fun js_quot :: "jsnum \<Rightarrow> jsnum \<Rightarrow> jsnum" where
  "js_quot (Num a) (Num b) = js_div a b"
| "js_quot NaN _ = NaN"
| "js_quot _ NaN = NaN"
| "js_quot (Num a) _ = Num 0"
| "js_quot PosInfinity (Num b) = (if 0 \<le> b then PosInfinity else NegInfinity)"
| "js_quot NegInfinity (Num b) = (if 0 \<le> b then NegInfinity else PosInfinity)"
| "js_quot _ _ = NaN"

text \<open>
  A loop over the elements of the array at \<open>arr\<close>, as \<open>forEach\<close> and \<open>map\<close> run it: the
  length is read once, each element when its turn comes.
\<close>

definition iter :: "addr \<Rightarrow> (store \<times> 'a \<Rightarrow> jsval \<Rightarrow> store \<times> 'a) \<Rightarrow> store \<times> 'a \<Rightarrow> store \<times> 'a" where
  "iter arr callback st =
     foldl (\<lambda>st i. if i < length (elems (fst st) arr)
                    then callback st (elems (fst st) arr ! i) else st)
           st [0..<length (elems (fst st) arr)]"

text \<open>\<open>arr.map(f)\<close>: the results are collected into a new array.\<close>

definition mapH :: "(store \<Rightarrow> jsval \<Rightarrow> store \<times> jsval) \<Rightarrow> store \<Rightarrow> addr \<Rightarrow> store \<times> addr" where
  "mapH f s arr =
     (case iter arr (\<lambda>st v. case f (fst st) v of (s', w) \<Rightarrow> (s', snd st @ [w])) (s, []) of
        (s', out) \<Rightarrow> alloc s' (JArray out))"

text \<open>\<open>arr.filter(p)\<close> for a callback that only reads, and \<open>arr.slice(0, n)\<close>.\<close>

definition filterH :: "(store \<Rightarrow> jsval \<Rightarrow> bool) \<Rightarrow> store \<Rightarrow> addr \<Rightarrow> store \<times> addr" where
  "filterH p s arr = alloc s (JArray (filter (p s) (elems s arr)))"

definition sliceH :: "store \<Rightarrow> addr \<Rightarrow> nat \<Rightarrow> store \<times> addr" where
  "sliceH s arr n = alloc s (JArray (take n (elems s arr)))"

text \<open>\<open>arr.push(v)\<close>.\<close>

definition pushH :: "store \<Rightarrow> addr \<Rightarrow> jsval \<Rightarrow> store" where
  "pushH s arr v =
     (if arr < length s
      then (case s ! arr of JArray vs \<Rightarrow> s[arr := JArray (vs @ [v])] | JObject ps \<Rightarrow> s)
      else s)"

text \<open>\<open>arr.reduce((sum, t) => sum + Number(t.amount), 0)\<close>.\<close>

definition reduceAmounts :: "store \<Rightarrow> addr \<Rightarrow> jsnum" where
  "reduceAmounts s arr =
     foldl (\<lambda>sum t. js_plus sum (toNumber (get s t ''amount''))) (Num 0) (elems s arr)"

subsection \<open>Expenses by category, on the store\<close>

definition expenseStepH :: "addr \<Rightarrow> store \<times> jsnum \<Rightarrow> jsval \<Rightarrow> store \<times> jsnum" where
  "expenseStepH expensesByCategory st t =
     (case st of (s, totalSum) \<Rightarrow>
        if get s t ''type'' = JStr ''expense'' then
          (let categories = get s t ''categories'';
               categoryName = orElse (get s categories ''name'') (JStr ''Other'');
               categoryColor = orElse (get s categories ''color'') (JStr ''#6366f1'');
               amount = toNumber (get s t ''amount'');
               s1 = (if \<not> truthy (get s (JRef expensesByCategory) (keyOf categoryName))
                     then (case alloc s (JObject [(''amount'', JNum (Num 0)),
                                                  (''color'', categoryColor)]) of
                             (s', entry) \<Rightarrow>
                               setProp s' (JRef expensesByCategory) (keyOf categoryName) (JRef entry))
                     else s);
               target = get s1 (JRef expensesByCategory) (keyOf categoryName);
               s2 = setProp s1 target ''amount''
                      (JNum (js_plus (toNumber (get s1 target ''amount'')) amount))
           in (s2, js_plus totalSum amount))
        else (s, totalSum))"

text \<open>\<open>Object.entries(obj)\<close>: a new array of new pairs, in the order of the keys.\<close>

definition ownEntries :: "(string \<times> jsval) list \<Rightarrow> (string \<times> jsval) list" where
  "ownEntries ps =
     sort_key (\<lambda>p. indexValue (fst p)) (filter (\<lambda>p. isArrayIndex (fst p)) ps)
     @ filter (\<lambda>p. \<not> isArrayIndex (fst p)) ps"

definition entriesH :: "store \<Rightarrow> addr \<Rightarrow> store \<times> addr" where
  "entriesH s obj =
     (case foldl (\<lambda>(s', out) (k, v). case alloc s' (JArray [JStr k, v]) of
                                       (s'', pair) \<Rightarrow> (s'', out @ [JRef pair]))
                 (s, []) (ownEntries (own s obj)) of
        (s', out) \<Rightarrow> alloc s' (JArray out))"

text \<open>The callback of \<open>map\<close>, on a pair \<open>[name, data]\<close>.\<close>

definition toCategoryExpense :: "jsnum \<Rightarrow> store \<Rightarrow> jsval \<Rightarrow> store \<times> jsval" where
  "toCategoryExpense totalSum s pair =
     (let name = (case pair of JRef p \<Rightarrow> elems s p ! 0 | _ \<Rightarrow> JUndefined);
          data = (case pair of JRef p \<Rightarrow> elems s p ! 1 | _ \<Rightarrow> JUndefined)
      in case alloc s (JObject
             [(''name'', name),
              (''amount'', get s data ''amount''),
              (''color'', get s data ''color''),
              (''percentage'',
                 JNum (js_times (js_quot (toNumber (get s data ''amount'')) totalSum) 100))]) of
           (s', a) \<Rightarrow> (s', JRef a))"

text \<open>
  \<open>arr.sort((a, b) => b.amount - a.amount)\<close>, in place; the amounts are finite numbers.
\<close>

definition amountKey :: "store \<Rightarrow> jsval \<Rightarrow> rat" where
  "amountKey s v = (case toNumber (get s v ''amount'') of Num x \<Rightarrow> - x | _ \<Rightarrow> 0)"

definition sortH :: "store \<Rightarrow> addr \<Rightarrow> store" where
  "sortH s arr =
     (if arr < length s
      then (case s ! arr of
              JArray vs \<Rightarrow> s[arr := JArray (sort_key (amountKey s) vs)]
            | JObject ps \<Rightarrow> s)
      else s)"

definition categoryDataH :: "store \<Rightarrow> addr \<Rightarrow> store \<times> addr" where
  "categoryDataH s0 transactions =
     (case alloc s0 (JObject []) of (s1, expensesByCategory) \<Rightarrow>
      case iter transactions (expenseStepH expensesByCategory) (s1, Num 0) of
        (s2, totalSum) \<Rightarrow>
      case entriesH s2 expensesByCategory of (s3, entries) \<Rightarrow>
      case mapH (toCategoryExpense totalSum) s3 entries of (s4, result) \<Rightarrow>
        (sortH s4 result, result))"

subsection \<open>Dashboard totals and recent transactions, on the store\<close>

definition recentOf :: "store \<Rightarrow> jsval \<Rightarrow> store \<times> jsval" where
  "recentOf s t =
     (case alloc s (JObject
        [(''id'', get s t ''id''),
         (''amount'', JNum (toNumber (get s t ''amount''))),
         (''type'', get s t ''type''),
         (''description'', get s t ''description''),
         (''date'', get s t ''date''),
         (''category_name'',
            orElse (get s (get s t ''categories'') ''name'') (JStr ''Uncategorized'')),
         (''category_icon'',
            orElse (get s (get s t ''categories'') ''icon'') (JStr ''circle'')),
         (''category_color'',
            orElse (get s (get s t ''categories'') ''color'') (JStr ''#6366f1''))]) of
        (s', a) \<Rightarrow> (s', JRef a))"

text \<open>The result: the store, the new statistics object and the new array of recent rows.\<close>

definition loadDataH :: "store \<Rightarrow> addr \<Rightarrow> store \<times> addr \<times> addr" where
  "loadDataH s0 transactions =
     (case filterH (\<lambda>s t. get s t ''type'' = JStr ''income'') s0 transactions of
        (s1, incomeRows) \<Rightarrow>
      case filterH (\<lambda>s t. get s t ''type'' = JStr ''expense'') s1 transactions of
        (s2, expenseRows) \<Rightarrow>
      (let income = reduceAmounts s1 incomeRows;
           expenses = reduceAmounts s2 expenseRows
       in case alloc s2 (JObject
                 [(''totalIncome'', JNum income),
                  (''totalExpenses'', JNum expenses),
                  (''totalSavings'', JNum (js_minus income expenses)),
                  (''monthlyChange'', JNum (Num (25 / 2)))]) of
            (s3, stats) \<Rightarrow>
          case sliceH s3 transactions 5 of (s4, firstFive) \<Rightarrow>
          case mapH recentOf s4 firstFive of (s5, recent) \<Rightarrow> (s5, stats, recent)))"

subsection \<open>Monthly series, on the store\<close>

text \<open>The callback of the monthly \<open>forEach\<close> updates two local variables only.\<close>

definition monthStepH :: "store \<Rightarrow> jsnum \<times> jsnum \<Rightarrow> jsval \<Rightarrow> jsnum \<times> jsnum" where
  "monthStepH s acc t =
     (case acc of (incomeAcc, expenseAcc) \<Rightarrow>
        if get s t ''type'' = JStr ''income''
        then (js_plus incomeAcc (toNumber (get s t ''amount'')), expenseAcc)
        else (incomeAcc, js_plus expenseAcc (toNumber (get s t ''amount''))))"

text \<open>
  \<open>fetch y m\<close> is the address of the array of rows that the store of the application
  returned for month \<open>m\<close> of year \<open>y\<close>.
\<close>

definition monthIterationH :: "JSDate \<Rightarrow> (int \<Rightarrow> int \<Rightarrow> addr) \<Rightarrow> addr \<Rightarrow> store \<Rightarrow> int \<Rightarrow> store" where
  "monthIterationH now fetch series s i =
     (let currentMonth = getMonth now + 1;
          currentYear = getFullYear now;
          m = currentMonth - 1 - i;
          targetMonth = m mod 12 + 1;
          targetYear = currentYear + m div 12;
          data = fetch targetYear targetMonth
      in case foldl (monthStepH s) (Num 0, Num 0) (elems s data) of
           (incomeAcc, expenseAcc) \<Rightarrow>
             (case alloc s (JObject
                     [(''month'', JStr (monthNames ! nat (targetMonth - 1))),
                      (''income'', JNum incomeAcc),
                      (''expense'', JNum expenseAcc),
                      (''savings'', JNum (js_minus incomeAcc expenseAcc))]) of
                (s', entry) \<Rightarrow> pushH s' series (JRef entry)))"

definition monthlyStatsH :: "JSDate \<Rightarrow> (int \<Rightarrow> int \<Rightarrow> addr) \<Rightarrow> store \<Rightarrow> store \<times> addr" where
  "monthlyStatsH now fetch s0 =
     (case alloc s0 (JArray []) of (s1, series) \<Rightarrow>
        (foldl (monthIterationH now fetch series) s1 [5, 4, 3, 2, 1, 0], series))"

subsection \<open>What stays as it was\<close>

text \<open>
  Every object of the store \<open>s0\<close> that is not built in is still there, unchanged, in \<open>s\<close>.
\<close>

definition preserved :: "store \<Rightarrow> store \<Rightarrow> bool" where
  "preserved s0 s \<longleftrightarrow>
     length s0 \<le> length s \<and> list_all (\<lambda>a. builtin a \<or> s ! a = s0 ! a) [0..<length s0]"

text \<open>
  The built-in objects are present, and what \<open>Object.prototype\<close> provides refers to
  built-in objects only.
\<close>

definition builtinRefs :: "(string \<times> jsval) list \<Rightarrow> bool" where
  "builtinRefs ps \<longleftrightarrow> list_all (\<lambda>p. case snd p of JRef b \<Rightarrow> builtin b | _ \<Rightarrow> True) ps"

definition realmOK :: "store \<Rightarrow> bool" where
  "realmOK s \<longleftrightarrow> length objectPrototypeKeys < length s \<and> builtinRefs (own s protoAddr)"

text \<open>
  What the loop over the rows maintains: the accumulator object at \<open>e\<close> was allocated
  after \<open>s0\<close>, and each of its own properties refers to an object allocated after it.
\<close>

definition laterRefs :: "addr \<Rightarrow> (string \<times> jsval) list \<Rightarrow> bool" where
  "laterRefs e ps \<longleftrightarrow> list_all (\<lambda>p. case snd p of JRef b \<Rightarrow> e < b | _ \<Rightarrow> False) ps"

definition loopInv :: "store \<Rightarrow> addr \<Rightarrow> store \<Rightarrow> bool" where
  "loopInv s0 e s \<longleftrightarrow>
     preserved s0 s \<and> realmOK s \<and> length s0 \<le> e \<and> e < length s \<and> \<not> builtin e
     \<and> laterRefs e (own s e)"

text \<open>A record as a store object, and a store that holds a list of records after the realm.\<close>

definition rowObject :: "Transaction \<Rightarrow> jsval \<Rightarrow> jsobj" where
  "rowObject t cat =
     JObject [(''type'', JStr (if type t = Income then ''income'' else ''expense'')),
              (''amount'', JNum (Num (Transaction.amount t))),
              (''categories'', cat)]"

definition categoryObject :: "Category \<Rightarrow> jsobj" where
  "categoryObject c = JObject [(''name'', JStr (Category.name c)), (''color'', JStr (Category.color c))]"

text \<open>
  The rows are laid out after the store \<open>s\<close>, each category object before its row, and
  the array of the rows last; the result is the store and the address of the array.
\<close>

fun storeRows :: "store \<Rightarrow> Transaction list \<Rightarrow> store \<times> jsval list" where
  "storeRows s [] = (s, [])"
| "storeRows s (t # ts) =
     (case categories t of
        None \<Rightarrow>
          (case alloc s (rowObject t JNull) of
             (s1, a) \<Rightarrow> (case storeRows s1 ts of (s2, vs) \<Rightarrow> (s2, JRef a # vs)))
      | Some c \<Rightarrow>
          (case alloc s (categoryObject c) of
             (s1, ca) \<Rightarrow>
               (case alloc s1 (rowObject t (JRef ca)) of
                  (s2, a) \<Rightarrow> (case storeRows s2 ts of (s3, vs) \<Rightarrow> (s3, JRef a # vs)))))"

definition storeOf :: "Transaction list \<Rightarrow> store \<times> addr" where
  "storeOf ts = (case storeRows realm ts of (s, vs) \<Rightarrow> alloc s (JArray vs))"

text \<open>Reading a breakdown back from the store.\<close>

definition readCategoryExpense :: "store \<Rightarrow> jsval \<Rightarrow> CategoryExpense" where
  "readCategoryExpense s v =
     \<lparr>CategoryExpense.name = keyOf (get s v ''name''),
      amount = (case toNumber (get s v ''amount'') of Num x \<Rightarrow> x | _ \<Rightarrow> 0),
      color = keyOf (get s v ''color''),
      percentage = toNumber (get s v ''percentage'')\<rparr>"

section \<open>Properties of the reminders\<close>

lemma lastDayOfMonth_bounds: "28 \<le> lastDayOfMonth y m \<and> lastDayOfMonth y m \<le> 31"
  by (simp add: lastDayOfMonth_def)

text \<open>
  Claim C3. For a due day from 1 to 31 and any calendar date, the days until due are
  \<open>dueDay - day\<close> when the due day is not before today's day of the month, and otherwise
  \<open>(daysInCurrentMonth - day) + dueDay\<close> with the leap-year-aware length of the current
  month; the result lies in [0, 31) and is 0 exactly when the due day is today's day.
\<close>

theorem getDaysUntilDue_spec:
  assumes "validDate now" and "1 \<le> dueDay" and "dueDay \<le> 31"
  shows "(getDate now \<le> dueDay \<longrightarrow> getDaysUntilDue now dueDay = dueDay - getDate now)
       \<and> (dueDay < getDate now \<longrightarrow>
            getDaysUntilDue now dueDay
              = (lastDayOfMonth (getFullYear now) (getMonth now) - getDate now) + dueDay)
       \<and> 0 \<le> getDaysUntilDue now dueDay \<and> getDaysUntilDue now dueDay < 31
       \<and> (getDaysUntilDue now dueDay = 0 \<longleftrightarrow> dueDay = getDate now)"
proof -
  have m: "lastDayOfMonth (getFullYear now) (getMonth now) \<le> 31"
    using lastDayOfMonth_bounds by blast
  have d: "1 \<le> getDate now"
    and e: "getDate now \<le> lastDayOfMonth (getFullYear now) (getMonth now)"
    using assms(1) by (simp_all add: validDate_def)
  show ?thesis
  proof (cases "dueDay < getDate now")
    case True
    then have "getDaysUntilDue now dueDay
        = lastDayOfMonth (getFullYear now) (getMonth now) - getDate now + dueDay"
      by (simp add: getDaysUntilDue_def Let_def)
    with True m d e assms(2) show ?thesis by simp
  next
    case False
    then have "getDaysUntilDue now dueDay = dueDay - getDate now"
      by (simp add: getDaysUntilDue_def Let_def)
    with False d assms(3) show ?thesis by auto
  qed
qed

theorem getDaysUntilDue_spec_witness:
  "validDate \<lparr>getFullYear = 2023, getMonth = 1, getDate = 28\<rparr>
   \<and> getDaysUntilDue \<lparr>getFullYear = 2023, getMonth = 1, getDate = 28\<rparr> 2 = 2
   \<and> getDaysUntilDue \<lparr>getFullYear = 2023, getMonth = 1, getDate = 28\<rparr> 2
       = (lastDayOfMonth 2023 1 - 28) + 2"
proof -
  have v: "validDate \<lparr>getFullYear = 2023, getMonth = 1, getDate = 28\<rparr>"
    by (simp add: validDate_def lastDayOfMonth_def isLeapYear_def)
  show ?thesis
    using v getDaysUntilDue_spec [OF v, of 2]
    by (simp add: lastDayOfMonth_def isLeapYear_def)
qed

lemma getDaysUntilDue_reaches:
  "0 \<le> d \<Longrightarrow> getDaysUntilDue \<lparr>getFullYear = y, getMonth = m, getDate = 1\<rparr> (1 + d) = d"
  by (simp add: getDaysUntilDue_def)

text \<open>
  Claim C4. The status badge is decided in this order, the first match winning: not
  active gives Inactive; then, on the days until due, 0 gives DueToday, at most 3 gives
  Imminent, at most 7 gives Upcoming, and anything else Scheduled.
\<close>

theorem getStatusBadge_classification:
  "badgeUrgency (getStatusBadge now dueDate isActive) =
     Some (if \<not> isActive then Inactive
           else if getDaysUntilDue now dueDate = 0 then DueToday
           else if getDaysUntilDue now dueDate \<le> 3 then Imminent
           else if getDaysUntilDue now dueDate \<le> 7 then Upcoming
           else Scheduled)"
  by (simp add: getStatusBadge_def badgeUrgency_def Let_def)

theorem getStatusBadge_classification_witness:
  "badgeUrgency (getStatusBadge \<lparr>getFullYear = 2023, getMonth = 1, getDate = 28\<rparr> 2 True) = Some Imminent
   \<and> badgeUrgency (getStatusBadge \<lparr>getFullYear = 2023, getMonth = 1, getDate = 28\<rparr> 2 False) = Some Inactive
   \<and> badgeUrgency (getStatusBadge \<lparr>getFullYear = 2023, getMonth = 1, getDate = 28\<rparr> 28 True) = Some DueToday
   \<and> badgeUrgency (getStatusBadge \<lparr>getFullYear = 2023, getMonth = 1, getDate = 28\<rparr> 5 True) = Some Upcoming
   \<and> badgeUrgency (getStatusBadge \<lparr>getFullYear = 2023, getMonth = 1, getDate = 28\<rparr> 20 True) = Some Scheduled"
  using getStatusBadge_classification [of "\<lparr>getFullYear = 2023, getMonth = 1, getDate = 28\<rparr>" 2 True]
    getStatusBadge_classification [of "\<lparr>getFullYear = 2023, getMonth = 1, getDate = 28\<rparr>" 2 False]
    getStatusBadge_classification [of "\<lparr>getFullYear = 2023, getMonth = 1, getDate = 28\<rparr>" 28 True]
    getStatusBadge_classification [of "\<lparr>getFullYear = 2023, getMonth = 1, getDate = 28\<rparr>" 5 True]
    getStatusBadge_classification [of "\<lparr>getFullYear = 2023, getMonth = 1, getDate = 28\<rparr>" 20 True]
  by (simp add: getDaysUntilDue_def lastDayOfMonth_def isLeapYear_def Let_def)




section \<open>Properties of the rounding to doubles\<close>

subsection \<open>Powers of two and the binary exponent\<close>

lemma pow2_powi: "pow2 e = 2 powi e"
  by (simp add: pow2_def power_int_def inverse_eq_divide power_one_over)

lemma pow2_pos: "0 < pow2 e"
  by (simp add: pow2_powi zero_less_power_int)

lemma pow2_add: "pow2 (i + j) = pow2 i * pow2 j"
  by (simp add: pow2_powi power_int_add)

lemma pow2_mono: "i \<le> j \<Longrightarrow> pow2 i \<le> pow2 j"
  by (simp add: pow2_powi power_int_increasing)


lemma pow2_nat: "0 \<le> e \<Longrightarrow> pow2 e = 2 ^ nat e"
  by (simp add: pow2_def)

declare bitLength.simps [simp del]

lemma bitLength_bounds:
  "0 < n \<Longrightarrow> 0 < bitLength n \<and> 2 ^ nat (bitLength n - 1) \<le> n \<and> n < 2 ^ nat (bitLength n)"
proof (induction n rule: bitLength.induct)
  case (1 n)
  show ?case
  proof (cases "n = 1")
    case True
    then show ?thesis
      by (simp add: bitLength.simps [of 1] bitLength.simps [of 0])
  next
    case False
    with 1(2) have h: "0 < n div 2" by simp
    from 1(2) have nle: "\<not> n \<le> 0" by simp
    define k where "k = bitLength (n div 2)"
    from 1(1) [OF nle h] have k: "0 < k" "2 ^ nat (k - 1) \<le> n div 2" "n div 2 < 2 ^ nat k"
      by (simp_all add: k_def)
    have b: "bitLength n = 1 + k"
      using nle by (simp add: bitLength.simps [of n] k_def)
    have e1: "nat (1 + k - 1) = Suc (nat (k - 1))" using k(1) by simp
    have e2: "nat (1 + k) = Suc (nat k)" using k(1) by simp
    have "2 * 2 ^ nat (k - 1) \<le> n" using k(2) by simp
    moreover have "n < 2 * 2 ^ nat k" using k(3) by simp
    ultimately show ?thesis
      unfolding b e1 e2 using k(1) by simp
  qed
qed

lemma floorLog2_bounds:
  assumes "0 < x"
  shows "pow2 (floorLog2 x) \<le> x \<and> x < pow2 (floorLog2 x + 1)"
proof (cases "1 \<le> x")
  case True
  define n where "n = \<lfloor>x\<rfloor>"
  have n: "0 < n" using True by (simp add: n_def)
  note b = bitLength_bounds [OF n]
  have e: "floorLog2 x = bitLength n - 1" using True by (simp add: floorLog2_def n_def)
  have "(2::rat) ^ nat (bitLength n - 1) = of_int (2 ^ nat (bitLength n - 1))" by simp
  also have "\<dots> \<le> of_int n" using b by (simp only: of_int_le_iff)
  also have "\<dots> \<le> x" by (simp add: n_def)
  finally have lo: "pow2 (floorLog2 x) \<le> x" using b by (simp add: e pow2_nat)
  have "n + 1 \<le> 2 ^ nat (bitLength n)" using b by simp
  then have "(of_int (n + 1) :: rat) \<le> of_int (2 ^ nat (bitLength n))"
    by (simp only: of_int_le_iff)
  moreover have "x < of_int (n + 1)" using floor_correct [of x] by (simp add: n_def)
  ultimately have "x < 2 ^ nat (bitLength n)" by simp
  then have hi: "x < pow2 (floorLog2 x + 1)" using b by (simp add: e pow2_nat)
  from lo hi show ?thesis by simp
next
  case False
  then have x1: "x < 1" by simp
  define m where "m = \<lceil>1 / x\<rceil> - 1"
  have "1 < 1 / x" using assms x1 by simp
  then have "1 < \<lceil>1 / x\<rceil>" by (simp add: less_ceiling_iff)
  then have m: "0 < m" by (simp add: m_def)
  note b = bitLength_bounds [OF m]
  define k where "k = bitLength m"
  have e: "floorLog2 x = - k" using False by (simp add: floorLog2_def m_def k_def)
  have m1: "of_int m < 1 / x" using ceiling_correct [of "1 / x"] by (simp add: m_def)
  have m2: "1 / x \<le> of_int m + 1"
    using le_of_int_ceiling [of "1 / x"] by (simp add: m_def)
  have "m + 1 \<le> 2 ^ nat k" using b by (simp add: k_def)
  then have "(of_int (m + 1) :: rat) \<le> of_int (2 ^ nat k)" by (simp only: of_int_le_iff)
  with m2 have "1 / x \<le> 2 ^ nat k" by simp
  then have "1 \<le> 2 ^ nat k * x" using assms by (simp add: field_simps)
  then have lo: "pow2 (- k) \<le> x"
    using b by (simp add: pow2_def k_def field_simps)
  have "(of_int (2 ^ nat (k - 1)) :: rat) \<le> of_int m"
    using b unfolding k_def by (simp only: of_int_le_iff)
  then have "(2::rat) ^ nat (k - 1) \<le> of_int m" by simp
  from this m1 have "2 ^ nat (k - 1) < 1 / x" by (rule le_less_trans)
  then have "x < 1 / 2 ^ nat (k - 1)" using assms by (simp add: field_simps)
  moreover have "pow2 (- k + 1) = 1 / 2 ^ nat (k - 1)"
    using b by (cases "k = 1") (simp_all add: pow2_def k_def)
  ultimately have hi: "x < pow2 (- k + 1)" by (simp only:)
  from lo hi show ?thesis by (simp add: e)
qed

lemma floorLog2_unique:
  assumes "pow2 e \<le> x" "x < pow2 (e + 1)"
  shows "floorLog2 x = e"
proof -
  have x: "0 < x" using assms(1) pow2_pos [of e] by simp
  note b = floorLog2_bounds [OF x]
  have "\<not> floorLog2 x < e"
  proof
    assume "floorLog2 x < e"
    then have "pow2 (floorLog2 x + 1) \<le> pow2 e" by (intro pow2_mono) simp
    with b assms show False by simp
  qed
  moreover have "\<not> e < floorLog2 x"
  proof
    assume "e < floorLog2 x"
    then have "pow2 (e + 1) \<le> pow2 (floorLog2 x)" by (intro pow2_mono) simp
    with b assms show False by simp
  qed
  ultimately show ?thesis by simp
qed

lemma roundHalfEven_near:
  assumes "\<bar>q - of_int n\<bar> < 1 / 2"
  shows "roundHalfEven q = n"
proof -
  have "\<lfloor>q\<rfloor> = n \<or> \<lfloor>q\<rfloor> = n - 1"
    using assms by (auto simp: floor_eq_iff abs_less_iff)
  then show ?thesis
  proof
    assume f: "\<lfloor>q\<rfloor> = n"
    then have "0 \<le> q - of_int n" using of_int_floor_le [of q] by simp
    with assms have "q - of_int n < 1 / 2" by simp
    with f show ?thesis by (simp add: roundHalfEven_def Let_def)
  next
    assume f: "\<lfloor>q\<rfloor> = n - 1"
    then have "q < of_int n" using floor_correct [of q] by simp
    with assms have "1 / 2 < q - of_int (n - 1)" by (simp add: abs_less_iff)
    with f show ?thesis by (simp add: roundHalfEven_def Let_def)
  qed
qed


lemma roundHalfEven_int [simp]: "roundHalfEven (of_int n) = n"
  by (simp add: roundHalfEven_def)

lemma roundHalfEven_bounds: "\<lfloor>q\<rfloor> \<le> roundHalfEven q \<and> roundHalfEven q \<le> \<lceil>q\<rceil>"
proof -
  have "\<lfloor>q\<rfloor> + 1 \<le> \<lceil>q\<rceil>" if "q \<noteq> of_int \<lfloor>q\<rfloor>"
    using that by (metis ceiling_altdef order_refl)
  moreover have "\<lfloor>q\<rfloor> \<le> \<lceil>q\<rceil>" by (simp add: floor_le_ceiling)
  ultimately show ?thesis
    by (auto simp: roundHalfEven_def Let_def)
qed

lemma roundHalfEven_mono:
  assumes "p \<le> q"
  shows "roundHalfEven p \<le> roundHalfEven q"
proof (cases "\<lfloor>p\<rfloor> = \<lfloor>q\<rfloor>")
  case True
  with assms have "p - of_int \<lfloor>p\<rfloor> \<le> q - of_int \<lfloor>q\<rfloor>" by simp
  with True show ?thesis
    by (auto simp: roundHalfEven_def Let_def)
next
  case False
  with assms have "\<lfloor>p\<rfloor> < \<lfloor>q\<rfloor>" using floor_mono [OF assms] by simp
  then have "\<lfloor>p\<rfloor> + 1 \<le> \<lfloor>q\<rfloor>" by simp
  moreover have "roundHalfEven p \<le> \<lfloor>p\<rfloor> + 1" by (simp add: roundHalfEven_def Let_def)
  moreover have "\<lfloor>q\<rfloor> \<le> roundHalfEven q" by (simp add: roundHalfEven_def Let_def)
  ultimately show ?thesis by linarith
qed

subsection \<open>Rounding is monotone\<close>

lemma roundMagnitude_nonneg:
  assumes "0 < x"
  shows "0 \<le> roundMagnitude x"
proof -
  have "0 \<le> x / pow2 (max (floorLog2 x) (- 1022) - 52)"
    using assms pow2_pos [of "max (floorLog2 x) (- 1022) - 52"] by simp
  then have "0 \<le> \<lfloor>x / pow2 (max (floorLog2 x) (- 1022) - 52)\<rfloor>" by simp
  then have "0 \<le> roundHalfEven (x / pow2 (max (floorLog2 x) (- 1022) - 52))"
    using roundHalfEven_bounds [of "x / pow2 (max (floorLog2 x) (- 1022) - 52)"] by linarith
  then show ?thesis
    using pow2_pos [of "max (floorLog2 x) (- 1022) - 52"]
    by (simp add: roundMagnitude_def Let_def)
qed

lemma floorLog2_mono:
  assumes "0 < x" "x \<le> y"
  shows "floorLog2 x \<le> floorLog2 y"
proof (rule ccontr)
  assume "\<not> floorLog2 x \<le> floorLog2 y"
  then have "pow2 (floorLog2 y + 1) \<le> pow2 (floorLog2 x)" by (intro pow2_mono) simp
  moreover have "0 < y" using assms by simp
  ultimately show False
    using floorLog2_bounds [OF assms(1)] floorLog2_bounds [of y] assms(2) by simp
qed

lemma pow2_quot: "pow2 i / pow2 j = pow2 (i - j)"
  using pow2_add [of "i - j" j] pow2_pos [of j] by (simp add: field_simps)

lemma pow2_52: "pow2 52 = of_int (2 ^ 52)"
  by (simp add: pow2_def)

lemma pow2_53: "pow2 53 = of_int (2 ^ 53)"
  by (simp add: pow2_def)

lemma roundMagnitude_mono:
  assumes "0 < x" "x \<le> y"
  shows "roundMagnitude x \<le> roundMagnitude y"
proof -
  define ex where "ex = max (floorLog2 x) (- 1022)"
  define ey where "ey = max (floorLog2 y) (- 1022)"
  have y: "0 < y" using assms by simp
  have rx: "roundMagnitude x = of_int (roundHalfEven (x / pow2 (ex - 52))) * pow2 (ex - 52)"
    by (simp add: roundMagnitude_def Let_def ex_def)
  have ry: "roundMagnitude y = of_int (roundHalfEven (y / pow2 (ey - 52))) * pow2 (ey - 52)"
    by (simp add: roundMagnitude_def Let_def ey_def)
  have le: "ex \<le> ey" using floorLog2_mono [OF assms] by (simp add: ex_def ey_def)
  show ?thesis
  proof (cases "ex = ey")
    case True
    have "x / pow2 (ey - 52) \<le> y / pow2 (ey - 52)"
      using assms(2) pow2_pos [of "ey - 52"] by (simp add: divide_right_mono)
    then have "roundHalfEven (x / pow2 (ey - 52)) \<le> roundHalfEven (y / pow2 (ey - 52))"
      by (rule roundHalfEven_mono)
    then have "(of_int (roundHalfEven (x / pow2 (ey - 52))) :: rat)
        \<le> of_int (roundHalfEven (y / pow2 (ey - 52)))"
      by (simp only: of_int_le_iff)
    then show ?thesis
      unfolding rx ry True using pow2_pos [of "ey - 52"] by (simp add: mult_right_mono)
  next
    case False
    with le have lt: "ex < ey" by simp
    then have eyf: "ey = floorLog2 y" by (simp add: ex_def ey_def max_def split: if_splits)
    have "pow2 ey \<le> y" using floorLog2_bounds [OF y] by (simp add: eyf)
    then have "pow2 ey / pow2 (ey - 52) \<le> y / pow2 (ey - 52)"
      using pow2_pos [of "ey - 52"] by (simp add: divide_right_mono)
    moreover have "pow2 ey / pow2 (ey - 52) = of_int (2 ^ 52)"
      using pow2_quot [of ey "ey - 52"] by (simp add: pow2_52)
    ultimately have "of_int (2 ^ 52) \<le> y / pow2 (ey - 52)"
      by (simp only:)
    then have "roundHalfEven (of_int (2 ^ 52)) \<le> roundHalfEven (y / pow2 (ey - 52))"
      by (rule roundHalfEven_mono)
    then have "(of_int (2 ^ 52) :: rat) \<le> of_int (roundHalfEven (y / pow2 (ey - 52)))"
      unfolding roundHalfEven_int by (simp only: of_int_le_iff)
    then have "of_int (2 ^ 52) * pow2 (ey - 52) \<le> roundMagnitude y"
      unfolding ry using pow2_pos [of "ey - 52"] by (simp only: mult_right_mono less_imp_le)
    moreover have "of_int (2 ^ 52) * pow2 (ey - 52) = pow2 ey"
      using pow2_add [of 52 "ey - 52"] by (simp add: pow2_52)
    ultimately have lo: "pow2 ey \<le> roundMagnitude y" by simp
    have "floorLog2 x + 1 \<le> ex + 1" by (simp add: ex_def)
    then have "pow2 (floorLog2 x + 1) \<le> pow2 (ex + 1)" by (rule pow2_mono)
    then have "x \<le> pow2 (ex + 1)" using floorLog2_bounds [OF assms(1)] by simp
    then have "x / pow2 (ex - 52) \<le> pow2 (ex + 1) / pow2 (ex - 52)"
      using pow2_pos [of "ex - 52"] by (simp add: divide_right_mono)
    moreover have "pow2 (ex + 1) / pow2 (ex - 52) = of_int (2 ^ 53)"
      using pow2_quot [of "ex + 1" "ex - 52"] by (simp add: pow2_53)
    ultimately have "x / pow2 (ex - 52) \<le> of_int (2 ^ 53)"
      by (simp only:)
    then have "roundHalfEven (x / pow2 (ex - 52)) \<le> roundHalfEven (of_int (2 ^ 53))"
      by (rule roundHalfEven_mono)
    then have "(of_int (roundHalfEven (x / pow2 (ex - 52))) :: rat) \<le> of_int (2 ^ 53)"
      unfolding roundHalfEven_int by (simp only: of_int_le_iff)
    then have "roundMagnitude x \<le> of_int (2 ^ 53) * pow2 (ex - 52)"
      unfolding rx using pow2_pos [of "ex - 52"] by (simp only: mult_right_mono less_imp_le)
    moreover have "of_int (2 ^ 53) * pow2 (ex - 52) = pow2 (ex + 1)"
      using pow2_add [of 53 "ex - 52"] by (simp add: pow2_53 add.commute)
    moreover have "pow2 (ex + 1) \<le> pow2 ey" using lt by (intro pow2_mono) simp
    ultimately show ?thesis using lo by simp
  qed
qed

lemma toDouble_mono:
  assumes "x \<le> y"
  shows "\<not> js_gt (toDouble x) (toDouble y)"
proof -
  have pos: "\<not> js_gt (toDouble a) (toDouble b)" if "0 < a" "a \<le> b" for a b
  proof -
    have "0 < b" using that by simp
    moreover have "roundMagnitude a \<le> roundMagnitude b" using that by (rule roundMagnitude_mono)
    ultimately show ?thesis using that
      by (simp add: toDouble_def Let_def)
  qed
  have sgn: "toDouble c = Num 0 \<or> (\<exists>r. toDouble c = Num r \<and> r \<le> 0) \<or> toDouble c = NegInfinity"
    if "c \<le> 0" for c
    using that roundMagnitude_nonneg [of "- c"] by (simp add: toDouble_def Let_def)
  have sgp: "(\<exists>r. toDouble c = Num r \<and> 0 \<le> r) \<or> toDouble c = PosInfinity"
    if "0 \<le> c" for c
    using that roundMagnitude_nonneg [of c] by (cases "c = 0") (simp_all add: toDouble_def Let_def)
  show ?thesis
  proof (cases "0 < x")
    case True
    then show ?thesis using assms by (rule pos)
  next
    case False
    then have x0: "x \<le> 0" by simp
    show ?thesis
    proof (cases "0 \<le> y")
      case True
      from sgn [OF x0] sgp [OF True] show ?thesis by auto
    next
      case False
      then have y0: "y < 0" by simp
      have m: "roundMagnitude (- y) \<le> roundMagnitude (- x)"
        using y0 assms by (intro roundMagnitude_mono) simp_all
      have "x < 0" using y0 assms by simp
      with y0 m show ?thesis
        by (simp add: toDouble_def Let_def)
    qed
  qed
qed


lemma toDouble_eval:
  assumes "pow2 e \<le> x" "x < pow2 (e + 1)" "- 1022 \<le> e"
    and "\<bar>x / pow2 (e - 52) - of_int n\<bar> < 1 / 2"
    and "of_int n * pow2 (e - 52) < pow2 1024"
  shows "toDouble x = Num (of_int n * pow2 (e - 52))"
proof -
  have x: "0 < x" using assms(1) pow2_pos [of e] by simp
  have "floorLog2 x = e" using assms(1,2) by (rule floorLog2_unique)
  then have "roundMagnitude x = of_int n * pow2 (e - 52)"
    using assms(3) roundHalfEven_near [OF assms(4)]
    by (simp add: roundMagnitude_def Let_def max_def)
  then show ?thesis using x assms(5) by (simp add: toDouble_def Let_def)
qed


section \<open>Properties of the budget status\<close>

subsection \<open>The doubles at the thresholds\<close>

lemma toDouble_4_5: "toDouble (4 / 5) = Num (3602879701896397 / 4503599627370496)"
  using toDouble_eval [of "- 1" "4 / 5" 7205759403792794] by (simp add: pow2_def)

lemma toDouble_1: "toDouble 1 = Num 1"
  using toDouble_eval [of 0 1 4503599627370496] by (simp add: pow2_def)

lemma toDouble_100: "toDouble 100 = Num 100"
  using toDouble_eval [of 6 100 7036874417766400] by (simp add: pow2_def)

lemma toDouble_80: "toDouble (3602879701896397 / 4503599627370496 * 100) = Num 80"
  using toDouble_eval [of 6 "3602879701896397 / 4503599627370496 * 100" 5629499534213120] by (simp add: pow2_def)

lemma toDouble_799999: "toDouble (799999 / 1000000) = Num (7205750396593539 / 9007199254740992)"
  using toDouble_eval [of "- 1" "799999 / 1000000" 7205750396593539] by (simp add: pow2_def)

lemma toDouble_799999_pct: "toDouble (7205750396593539 / 9007199254740992 * 100) = Num (2814746248669351 / 35184372088832)"
  using toDouble_eval [of 6 "7205750396593539 / 9007199254740992 * 100" 5629492497338702] by (simp add: pow2_def)

lemma toDouble_999999: "toDouble (999999 / 1000000) = Num (9007190247541737 / 9007199254740992)"
  using toDouble_eval [of "- 1" "999999 / 1000000" 9007190247541737] by (simp add: pow2_def)

lemma toDouble_999999_pct: "toDouble (9007190247541737 / 9007199254740992 * 100) = Num (3518433690445991 / 35184372088832)"
  using toDouble_eval [of 6 "9007190247541737 / 9007199254740992 * 100" 7036867380891982] by (simp add: pow2_def)


lemma toDouble_not_NaN: "toDouble x \<noteq> NaN"
  by (simp add: toDouble_def Let_def)

lemma toDouble_ge:
  assumes "c \<le> x" "toDouble c = Num d"
  shows "(\<exists>u. toDouble x = Num u \<and> d \<le> u) \<or> toDouble x = PosInfinity"
  using toDouble_mono [OF assms(1)] toDouble_not_NaN [of x] assms(2)
  by (cases "toDouble x") simp_all

lemma toDouble_le:
  assumes "x \<le> c" "toDouble c = Num d"
  shows "(\<exists>u. toDouble x = Num u \<and> u \<le> d) \<or> toDouble x = NegInfinity"
  using toDouble_mono [OF assms(1)] toDouble_not_NaN [of x] assms(2)
  by (cases "toDouble x") simp_all

lemma percentage_ge:
  assumes "c \<le> q" "toDouble c = Num d" "toDouble (d * 100) = Num k"
  shows "js_ge (dbl_mul (toDouble q) (Num 100)) k"
  using toDouble_ge [OF assms(1,2)]
proof
  assume "\<exists>u. toDouble q = Num u \<and> d \<le> u"
  then obtain u where u: "toDouble q = Num u" "d \<le> u" by blast
  then have "d * 100 \<le> u * 100" by simp
  from toDouble_ge [OF this assms(3)] u(1) show ?thesis by auto
next
  assume "toDouble q = PosInfinity"
  then show ?thesis by simp
qed

lemma percentage_le:
  assumes "q \<le> c" "toDouble c = Num d" "toDouble (d * 100) = Num k" "k < t"
  shows "\<not> js_ge (dbl_mul (toDouble q) (Num 100)) t"
  using toDouble_le [OF assms(1,2)]
proof
  assume "\<exists>u. toDouble q = Num u \<and> u \<le> d"
  then obtain u where u: "toDouble q = Num u" "u \<le> d" by blast
  then have "u * 100 \<le> d * 100" by simp
  from toDouble_le [OF this assms(3)] u(1) assms(4) show ?thesis by auto
next
  assume "toDouble q = NegInfinity"
  then show ?thesis by simp
qed

lemma toDouble_9_10: "toDouble (9 / 10) = Num (8106479329266893 / 9007199254740992)"
  using toDouble_eval [of "- 1" "9 / 10" 8106479329266893] by (simp add: pow2_def)

lemma toDouble_9_10_pct: "toDouble (8106479329266893 / 9007199254740992 * 100) = Num 90"
  using toDouble_eval [of 6 "8106479329266893 / 9007199254740992 * 100" 6333186975989760]
  by (simp add: pow2_def)

lemma toDouble_452: "toDouble (452 / 100) = Num (1272266894732165 / 281474976710656)"
  using toDouble_eval [of 2 "452 / 100" 5089067578928660] by (simp add: pow2_def)

lemma toDouble_565: "toDouble (565 / 100) = Num (3180667236830413 / 562949953421312)"
  using toDouble_eval [of 2 "565 / 100" 6361334473660826] by (simp add: pow2_def)

lemma toDouble_sum_0:
  "toDouble (1272266894732165 / 281474976710656) = Num (1272266894732165 / 281474976710656)"
  using toDouble_eval [of 2 "1272266894732165 / 281474976710656" 5089067578928660]
  by (simp add: pow2_def)

lemma toDouble_452_565:
  "toDouble (1272266894732165 / 281474976710656 / (3180667236830413 / 562949953421312))
     = Num (900719925474099 / 1125899906842624)"
  using toDouble_eval [of "- 1" "1272266894732165 / 281474976710656 / (3180667236830413 / 562949953421312)"
      7205759403792792]
  by (simp add: pow2_def)

lemma toDouble_452_565_pct:
  "toDouble (900719925474099 / 1125899906842624 * 100) = Num (5629499534213119 / 70368744177664)"
  using toDouble_eval [of 6 "900719925474099 / 1125899906842624 * 100" 5629499534213119]
  by (simp add: pow2_def)

lemma toDouble_4737: "toDouble (4737 / 100) = Num (6666734823391887 / 140737488355328)"
  using toDouble_eval [of 5 "4737 / 100" 6666734823391887] by (simp add: pow2_def)

lemma toDouble_123: "toDouble (123 / 100) = Num (2769713770832855 / 2251799813685248)"
  using toDouble_eval [of 0 "123 / 100" 5539427541665710] by (simp add: pow2_def)

lemma toDouble_140: "toDouble (140 / 100) = Num (3152519739159347 / 2251799813685248)"
  using toDouble_eval [of 0 "140 / 100" 6305039478318694] by (simp add: pow2_def)

lemma toDouble_50: "toDouble 50 = Num 50"
  using toDouble_eval [of 5 50 7036874417766400] by (simp add: pow2_def)

lemma toDouble_sum_1:
  "toDouble (6666734823391887 / 140737488355328) = Num (6666734823391887 / 140737488355328)"
  using toDouble_eval [of 5 "6666734823391887 / 140737488355328" 6666734823391887]
  by (simp add: pow2_def)

lemma toDouble_sum_2:
  "toDouble (6666734823391887 / 140737488355328 + 2769713770832855 / 2251799813685248)
     = Num (1709960483517235 / 35184372088832)"
  using toDouble_eval [of 5 "6666734823391887 / 140737488355328 + 2769713770832855 / 2251799813685248"
      6839841934068940]
  by (simp add: pow2_def)

lemma toDouble_sum_3:
  "toDouble (1709960483517235 / 35184372088832 + 3152519739159347 / 2251799813685248)
     = Num (7036874417766399 / 140737488355328)"
  using toDouble_eval [of 5 "1709960483517235 / 35184372088832 + 3152519739159347 / 2251799813685248"
      7036874417766399]
  by (simp add: pow2_def)

lemma toDouble_sum_quot:
  "toDouble (7036874417766399 / 140737488355328 / 50) = Num (9007199254740991 / 9007199254740992)"
  using toDouble_eval [of "- 1" "7036874417766399 / 140737488355328 / 50" 9007199254740991]
  by (simp add: pow2_def)

lemma toDouble_sum_pct:
  "toDouble (9007199254740991 / 9007199254740992 * 100) = Num (7036874417766399 / 70368744177664)"
  using toDouble_eval [of 6 "9007199254740991 / 9007199254740992 * 100" 7036874417766399]
  by (simp add: pow2_def)

subsection \<open>The status of a budget\<close>

text \<open>
  Claim C5, as the code has it. For a budget whose amount is a positive number and whose
  spending is a number, the percentage is the quotient \<open>spent / amount\<close> rounded to a
  double, multiplied by 100 and rounded again. The progress colour is red (Exceeded)
  exactly when this percentage is at least 100, amber (Warning) exactly when it is at
  least 80 and below 100, and green (OnTrack) exactly when it is below 80. In terms of
  the two numbers: the colour is red whenever \<open>spent \<ge> amount\<close>, amber whenever the ratio
  of the two numbers is from 0.80 to 0.999999, and green whenever it is at most 0.799999;
  so a ratio of exactly 0.80 is amber, of exactly 1.00 red, and of 0.799999 green.
\<close>

theorem budget_status:
  assumes "Budget.amount budget = Num a" and "0 < a" and "spent budget = Num s"
  shows "budgetPercentage budget = dbl_mul (toDouble (s / a)) (Num 100)
    \<and> (getProgressColor (budgetPercentage budget) = ''bg-red-600''
          \<longleftrightarrow> js_ge (budgetPercentage budget) 100)
    \<and> (getProgressColor (budgetPercentage budget) = ''bg-amber-600''
          \<longleftrightarrow> js_ge (budgetPercentage budget) 80 \<and> \<not> js_ge (budgetPercentage budget) 100)
    \<and> (getProgressColor (budgetPercentage budget) = ''bg-green-600''
          \<longleftrightarrow> \<not> js_ge (budgetPercentage budget) 80)
    \<and> (a \<le> s \<longrightarrow> getProgressColor (budgetPercentage budget) = ''bg-red-600'')
    \<and> (4 / 5 \<le> s / a \<and> s / a \<le> 999999 / 1000000
          \<longrightarrow> getProgressColor (budgetPercentage budget) = ''bg-amber-600'')
    \<and> (s / a \<le> 799999 / 1000000
          \<longrightarrow> getProgressColor (budgetPercentage budget) = ''bg-green-600'')"
proof -
  define p where "p = budgetPercentage budget"
  have p: "p = dbl_mul (toDouble (s / a)) (Num 100)"
    using assms by (simp add: p_def budgetPercentage_def)
  have ge: "js_ge p 80" if "js_ge p 100"
    using that by (cases p) simp_all
  have red: "js_ge p 100" if "a \<le> s"
  proof -
    have "1 \<le> s / a" using that assms(2) by simp
    from percentage_ge [OF this toDouble_1] show ?thesis
      by (simp add: toDouble_100 p)
  qed
  have amber1: "js_ge p 80" if "4 / 5 \<le> s / a"
    using percentage_ge [OF that toDouble_4_5 toDouble_80] by (simp add: p)
  have amber2: "\<not> js_ge p 100" if "s / a \<le> 999999 / 1000000"
    using percentage_le [OF that toDouble_999999 toDouble_999999_pct, of 100] by (simp add: p)
  have green: "\<not> js_ge p 80" if "s / a \<le> 799999 / 1000000"
    using percentage_le [OF that toDouble_799999 toDouble_799999_pct, of 80] by (simp add: p)
  have c: "getProgressColor p
      = (if js_ge p 100 then ''bg-red-600''
         else if js_ge p 80 then ''bg-amber-600'' else ''bg-green-600'')"
    by (simp add: getProgressColor_def)
  have 1: "getProgressColor p = ''bg-red-600'' \<longleftrightarrow> js_ge p 100"
    by (simp add: c)
  have 2: "getProgressColor p = ''bg-amber-600'' \<longleftrightarrow> js_ge p 80 \<and> \<not> js_ge p 100"
    using ge by (auto simp: c)
  have 3: "getProgressColor p = ''bg-green-600'' \<longleftrightarrow> \<not> js_ge p 80"
    using ge by (auto simp: c)
  have 4: "a \<le> s \<longrightarrow> getProgressColor p = ''bg-red-600''"
    using red 1 by blast
  have 5: "4 / 5 \<le> s / a \<and> s / a \<le> 999999 / 1000000
      \<longrightarrow> getProgressColor p = ''bg-amber-600''"
    using amber1 amber2 2 by blast
  have 6: "s / a \<le> 799999 / 1000000 \<longrightarrow> getProgressColor p = ''bg-green-600''"
    using green 3 by blast
  from p 1 2 3 4 5 6 show ?thesis
    unfolding p_def by (intro conjI)
qed

theorem budget_status_witness:
  "getProgressColor (budgetPercentage \<lparr>Budget.amount = Num 500, spent = Num 450\<rparr>) = ''bg-amber-600''
   \<and> budgetPercentage \<lparr>Budget.amount = Num 500, spent = Num 450\<rparr>
       = Num 90
   \<and> getProgressColor (budgetPercentage \<lparr>Budget.amount = Num 500, spent = Num 400\<rparr>) = ''bg-amber-600''
   \<and> getProgressColor (budgetPercentage \<lparr>Budget.amount = Num 500, spent = Num 500\<rparr>) = ''bg-red-600''
   \<and> getProgressColor (budgetPercentage \<lparr>Budget.amount = Num 1000000, spent = Num 799999\<rparr>) = ''bg-green-600''"
  using budget_status [of "\<lparr>Budget.amount = Num 500, spent = Num 450\<rparr>" 500 450]
    budget_status [of "\<lparr>Budget.amount = Num 500, spent = Num 400\<rparr>" 500 400]
    budget_status [of "\<lparr>Budget.amount = Num 500, spent = Num 500\<rparr>" 500 500]
    budget_status [of "\<lparr>Budget.amount = Num 1000000, spent = Num 799999\<rparr>" 1000000 799999]
  by (simp add: getProgressColor_def budgetPercentage_def toDouble_9_10 [simplified]
      toDouble_9_10_pct [simplified] toDouble_4_5 [simplified] toDouble_80 [simplified]
      toDouble_1 toDouble_100 toDouble_799999 [simplified] toDouble_799999_pct [simplified])

text \<open>
  Claim C5 as stated, for the decimal amounts of the data model, fails. A limit of 5.65
  with one expense of 4.52 is spent to exactly 0.80, yet the two decimals are held as the
  nearest doubles, their quotient rounds to 0.7999999999999998, the percentage to
  79.99999999999999, and the colour is green. A limit of 50 with expenses of 47.37, 1.23
  and 1.40 is spent to exactly 1.00, yet the sum of the three doubles is
  49.99999999999999, the percentage 99.99999999999999, and the colour is amber.
\<close>

theorem budget_boundary_counterexample:
  "(452 / 100) / (565 / 100) = (4 / 5 :: rat)
   \<and> withSpent [(''groceries'', 452 / 100)] ''groceries'' (565 / 100)
       = \<lparr>Budget.amount = Num (3180667236830413 / 562949953421312),
          spent = Num (1272266894732165 / 281474976710656)\<rparr>
   \<and> budgetPercentage (withSpent [(''groceries'', 452 / 100)] ''groceries'' (565 / 100))
       = Num (5629499534213119 / 70368744177664)
   \<and> getProgressColor (budgetPercentage (withSpent [(''groceries'', 452 / 100)] ''groceries'' (565 / 100)))
       = ''bg-green-600''
   \<and> 4737 / 100 + 123 / 100 + 140 / 100 = (50 :: rat)
   \<and> withSpent [(''fuel'', 4737 / 100), (''fuel'', 123 / 100), (''fuel'', 140 / 100)] ''fuel'' 50
       = \<lparr>Budget.amount = Num 50, spent = Num (7036874417766399 / 140737488355328)\<rparr>
   \<and> budgetPercentage
        (withSpent [(''fuel'', 4737 / 100), (''fuel'', 123 / 100), (''fuel'', 140 / 100)] ''fuel'' 50)
       = Num (7036874417766399 / 70368744177664)
   \<and> getProgressColor (budgetPercentage
        (withSpent [(''fuel'', 4737 / 100), (''fuel'', 123 / 100), (''fuel'', 140 / 100)] ''fuel'' 50))
       = ''bg-amber-600''"
  by (simp add: withSpent_def spentByCategory_def spendStep_def budgetPercentage_def
      getProgressColor_def toDouble_452 [simplified] toDouble_565 [simplified]
      toDouble_452_565 [simplified] toDouble_452_565_pct [simplified]
      toDouble_4737 [simplified] toDouble_123 [simplified] toDouble_140 [simplified]
      toDouble_50 toDouble_sum_0 [simplified] toDouble_sum_1 [simplified] toDouble_sum_2 [simplified]
      toDouble_sum_3 [simplified] toDouble_sum_quot [simplified] toDouble_sum_pct [simplified])

section \<open>Properties of the aggregation\<close>






subsection \<open>The accumulation loop in closed form\<close>

lemma set_firstEncountered [simp]: "set (firstEncountered xs) = set xs"
  by (induction xs) auto

lemma distinct_firstEncountered [simp]: "distinct (firstEncountered xs)"
  by (induction xs) (auto simp: distinct_removeAll)

lemma firstEncountered_snoc:
  "firstEncountered (xs @ [n]) = (if n \<in> set xs then firstEncountered xs else firstEncountered xs @ [n])"
  by (induction xs) auto

lemma addAmount_notin: "key \<notin> fst ` set es \<Longrightarrow> addAmount key a es = es"
  by (induction es) (auto)

lemma addAmount_map:
  "addAmount key a (map (\<lambda>n. (n, f n, g n)) ks)
     = map (\<lambda>n. (n, (if n = key then f n + a else f n), g n)) ks" if "distinct ks"
  using that
proof (induction ks)
  case Nil
  then show ?case by simp
next
  case (Cons k ks)
  show ?case
  proof (cases "k = key")
    case True
    with Cons.prems have "key \<notin> set ks" by simp
    then have "map (\<lambda>n. (n, (if n = key then f n + a else f n), g n)) ks = map (\<lambda>n. (n, f n, g n)) ks"
      by (intro map_cong) auto
    with True show ?thesis by simp
  next
    case False
    with Cons show ?thesis by simp
  qed
qed

lemma find_snoc:
  "List.find P (xs @ [x]) = (case List.find P xs of None \<Rightarrow> (if P x then Some x else None) | Some y \<Rightarrow> Some y)"
  by (induction xs) auto


lemma in_breakdownKeys:
  "n \<in> set (breakdownKeys ts) \<longleftrightarrow> n \<notin> set objectPrototypeKeys \<and> (\<exists>t\<in>set ts. inCategory n t)"
  by (auto simp: breakdownKeys_def expenseNames_def inCategory_def)

lemma breakdownKeys_snoc:
  "breakdownKeys (ts @ [t]) =
     (if type t = Expense \<and> categoryNameOf t \<notin> set objectPrototypeKeys
          \<and> categoryNameOf t \<notin> set (breakdownKeys ts)
      then breakdownKeys ts @ [categoryNameOf t] else breakdownKeys ts)"
  by (simp add: breakdownKeys_def expenseNames_def firstEncountered_snoc)

lemma catTotal_snoc:
  "catTotal (ts @ [t]) n = catTotal ts n + (if inCategory n t then Transaction.amount t else 0)"
  by (simp add: catTotal_def)

lemma catTotal_none: "\<not> (\<exists>t\<in>set ts. inCategory n t) \<Longrightarrow> catTotal ts n = 0"
  by (induction ts) (simp_all add: catTotal_def)

lemma firstColor_snoc_old:
  assumes "\<exists>u\<in>set ts. inCategory n u"
  shows "firstColor (ts @ [t]) n = firstColor ts n"
proof -
  from assms obtain y where "List.find (inCategory n) ts = Some y"
    by (cases "List.find (inCategory n) ts") (auto simp: find_None_iff)
  then show ?thesis by (simp add: firstColor_def find_snoc)
qed

lemma firstColor_snoc_new:
  assumes "\<not> (\<exists>u\<in>set ts. inCategory n u)" and "inCategory n t"
  shows "firstColor (ts @ [t]) n = categoryColorOf t"
proof -
  from assms(1) have "List.find (inCategory n) ts = None"
    by (auto simp: find_None_iff)
  with assms(2) show ?thesis by (simp add: firstColor_def find_snoc)
qed

lemma sumExpenses_snoc:
  "sumExpenses (ts @ [t]) = sumExpenses ts + (if type t = Expense then Transaction.amount t else 0)"
  by (simp add: sumExpenses_def)

lemma addAmount_fresh:
  "n \<notin> fst ` set obj \<Longrightarrow> addAmount n a (obj @ [(n, 0, c)]) = obj @ [(n, a, c)]"
  by (induction obj) auto

lemma foldl_expenseStep:
  "foldl expenseStep ([], 0) ts
     = (map (\<lambda>n. (n, catTotal ts n, firstColor ts n)) (breakdownKeys ts), sumExpenses ts)"
proof (induction ts rule: rev_induct)
  case Nil
  show ?case by (simp add: breakdownKeys_def expenseNames_def sumExpenses_def)
next
  case (snoc t ts)
  define ks where "ks = breakdownKeys ts"
  define obj where "obj = map (\<lambda>n. (n, catTotal ts n, firstColor ts n)) ks"
  have st: "foldl expenseStep ([], 0) (ts @ [t]) = expenseStep (obj, sumExpenses ts) t"
    using snoc by (simp add: obj_def ks_def)
  have keys: "fst ` set obj = set ks"
    by (force simp: obj_def)
  have old: "firstColor (ts @ [t]) n = firstColor ts n" if "n \<in> set ks" for n
    using that by (simp add: ks_def in_breakdownKeys firstColor_snoc_old)
  show ?case
  proof (cases "type t = Expense")
    case False
    then have no: "\<not> inCategory n t" for n by (simp add: inCategory_def)
    have res: "expenseStep (obj, sumExpenses ts) t = (obj, sumExpenses ts)"
      using False by (simp add: expenseStep_def)
    have "map (\<lambda>n. (n, catTotal (ts @ [t]) n, firstColor (ts @ [t]) n)) ks = obj"
      unfolding obj_def by (rule map_cong) (simp_all add: catTotal_snoc no old)
    then have rhs: "(map (\<lambda>n. (n, catTotal (ts @ [t]) n, firstColor (ts @ [t]) n))
                      (breakdownKeys (ts @ [t])), sumExpenses (ts @ [t])) = (obj, sumExpenses ts)"
      using False by (simp add: breakdownKeys_snoc sumExpenses_snoc ks_def)
    show ?thesis by (simp only: st res rhs)
  next
    case True
    define n where "n = categoryNameOf t"
    have inc: "inCategory m t \<longleftrightarrow> m = n" for m
      using True by (auto simp: inCategory_def n_def)
    have step: "expenseStep (obj, sumExpenses ts) t
        = (addAmount n (Transaction.amount t)
             (if \<not> truthyAt obj n then obj @ [(n, 0, categoryColorOf t)] else obj),
           sumExpenses ts + Transaction.amount t)"
      using True by (simp add: expenseStep_def Let_def n_def)
    have upd: "map (\<lambda>m. (m, catTotal (ts @ [t]) m, firstColor (ts @ [t]) m)) ks
        = map (\<lambda>m. (m, (if m = n then catTotal ts m + Transaction.amount t else catTotal ts m),
                       firstColor ts m)) ks"
      by (rule map_cong) (simp_all add: catTotal_snoc inc old)
    have dist: "distinct ks" by (simp add: ks_def breakdownKeys_def)
    have tot: "sumExpenses (ts @ [t]) = sumExpenses ts + Transaction.amount t"
      using True by (simp add: sumExpenses_snoc)
    consider (proto) "n \<in> set objectPrototypeKeys"
      | (seen) "n \<notin> set objectPrototypeKeys" "n \<in> set ks"
      | (fresh) "n \<notin> set objectPrototypeKeys" "n \<notin> set ks"
      by blast
    then show ?thesis
    proof cases
      case proto
      then have nk: "n \<notin> set ks" by (simp add: ks_def in_breakdownKeys)
      have res: "expenseStep (obj, sumExpenses ts) t = (obj, sumExpenses ts + Transaction.amount t)"
        using proto nk keys by (simp add: step truthyAt_def addAmount_notin)
      have "map (\<lambda>m. (m, catTotal (ts @ [t]) m, firstColor (ts @ [t]) m)) ks = obj"
        unfolding upd obj_def using nk by (intro map_cong) auto
      moreover have "breakdownKeys (ts @ [t]) = ks"
        using proto by (simp add: breakdownKeys_snoc ks_def n_def)
      ultimately have rhs: "(map (\<lambda>n. (n, catTotal (ts @ [t]) n, firstColor (ts @ [t]) n))
            (breakdownKeys (ts @ [t])), sumExpenses (ts @ [t]))
          = (obj, sumExpenses ts + Transaction.amount t)"
        by (simp add: tot)
      show ?thesis by (simp only: st res rhs)
    next
      case seen
      have "addAmount n (Transaction.amount t) obj
          = map (\<lambda>m. (m, (if m = n then catTotal ts m + Transaction.amount t else catTotal ts m),
                       firstColor ts m)) ks"
        unfolding obj_def by (rule addAmount_map [OF dist])
      then have res: "expenseStep (obj, sumExpenses ts) t
          = (map (\<lambda>m. (m, catTotal (ts @ [t]) m, firstColor (ts @ [t]) m)) ks,
             sumExpenses ts + Transaction.amount t)"
        using seen keys by (simp add: step truthyAt_def upd)
      have "breakdownKeys (ts @ [t]) = ks"
        using seen by (simp add: breakdownKeys_snoc ks_def n_def)
      then have rhs: "(map (\<lambda>n. (n, catTotal (ts @ [t]) n, firstColor (ts @ [t]) n))
            (breakdownKeys (ts @ [t])), sumExpenses (ts @ [t]))
          = (map (\<lambda>m. (m, catTotal (ts @ [t]) m, firstColor (ts @ [t]) m)) ks,
             sumExpenses ts + Transaction.amount t)"
        by (simp add: tot)
      show ?thesis by (simp only: st res rhs)
    next
      case fresh
      then have none: "\<not> (\<exists>u\<in>set ts. inCategory n u)"
        by (simp add: ks_def in_breakdownKeys)
      have res: "expenseStep (obj, sumExpenses ts) t
          = (obj @ [(n, Transaction.amount t, categoryColorOf t)],
             sumExpenses ts + Transaction.amount t)"
        using fresh keys by (simp add: step truthyAt_def addAmount_fresh)
      have b: "map (\<lambda>m. (m, catTotal (ts @ [t]) m, firstColor (ts @ [t]) m)) ks = obj"
        unfolding upd obj_def using fresh(2) by (intro map_cong) auto
      have c: "catTotal (ts @ [t]) n = Transaction.amount t"
        using none by (simp add: catTotal_snoc inc catTotal_none)
      have d: "firstColor (ts @ [t]) n = categoryColorOf t"
        using none by (simp add: firstColor_snoc_new inc)
      have "breakdownKeys (ts @ [t]) = ks @ [n]"
        using fresh True by (simp add: breakdownKeys_snoc ks_def n_def)
      then have rhs: "(map (\<lambda>n. (n, catTotal (ts @ [t]) n, firstColor (ts @ [t]) n))
            (breakdownKeys (ts @ [t])), sumExpenses (ts @ [t]))
          = (obj @ [(n, Transaction.amount t, categoryColorOf t)],
             sumExpenses ts + Transaction.amount t)"
        by (simp add: tot b c d)
      show ?thesis by (simp only: st res rhs)
    qed
  qed
qed

subsection \<open>The breakdown in closed form\<close>

lemma totalExpense_eq: "totalExpense ts = sumExpenses ts"
  by (simp add: totalExpense_def foldl_expenseStep)

lemma insort_key_map_inj:
  "insort_key (\<lambda>e. f (fst e)) (h x) (map h xs) = map h (insort_key f x xs)"
  if "\<And>y. fst (h y) = y"
  by (induction xs) (simp_all add: that)

lemma sort_key_map_fst:
  "sort_key (\<lambda>e. f (fst e)) (map h xs) = map h (sort_key f xs)" if "\<And>y. fst (h y) = y"
  by (induction xs) (simp_all add: insort_key_map_inj that)

lemma objectEntries_map:
  "objectEntries (map (\<lambda>n. (n, f n, g n)) ks) = map (\<lambda>n. (n, f n, g n)) (keyOrder ks)"
proof -
  have "sort_key (\<lambda>e. indexValue (fst e)) (map (\<lambda>n. (n, f n, g n)) (filter isArrayIndex ks))
      = map (\<lambda>n. (n, f n, g n)) (sort_key indexValue (filter isArrayIndex ks))"
    by (rule sort_key_map_fst) simp
  then show ?thesis
    by (simp add: objectEntries_def keyOrder_def filter_map comp_def)
qed

lemma categoryData_closed:
  "categoryData ts = sortByAmountDesc (map (entryOf ts) (keyOrder (breakdownKeys ts)))"
  by (simp add: categoryData_def foldl_expenseStep objectEntries_map entryOf_def [abs_def] comp_def)

lemma set_keyOrder [simp]: "set (keyOrder ks) = set ks"
  by (auto simp: keyOrder_def)

lemma distinct_keyOrder: "distinct ks \<Longrightarrow> distinct (keyOrder ks)"
  by (auto simp: keyOrder_def)






subsection \<open>The accumulation loop in double arithmetic\<close>










subsection \<open>The sums are doubles that are not negative\<close>











subsection \<open>The sign of the comparator\<close>






subsection \<open>The sort\<close>






subsection \<open>The breakdown on the example record lists\<close>

lemmas ex_defs = expenseOf_def uncategorized_def marchRecords_def tiedRecords_def
  numeralNamedRecords_def otherNamedRecords_def mixedRecords_def zeroRecords_def
  inheritedNamedRecords_def roundedRecords_def

lemmas eval_defs = categoryData_def expenseStep_def categoryNameOf_def categoryColorOf_def
  truthyAt_def objectPrototypeKeys_def objectEntries_def isArrayIndex_def indexValue_def
  digitValue_def sortByAmountDesc_def js_div_def totalExpense_def chartOffset_def















text \<open>
  Claim C2 at a single expense record of amount 0: the total is 0, the breakdown is not
  empty, and the percentage of its entry is \<open>0 / 0 * 100\<close>, which is NaN and not 0.
\<close>

theorem zero_total_percentage_NaN:
  "totalExpense zeroRecords = 0
   \<and> categoryData zeroRecords
       = [\<lparr>CategoryExpense.name = ''Other'', amount = 0, color = ''#6366f1'', percentage = NaN\<rparr>]"
  by (simp add: ex_defs eval_defs)

text \<open>
  Claim C6 at the same record list: the total is 0 and the percentages of the breakdown
  add up to NaN, not to 0.
\<close>

theorem zero_total_percentages_sum_NaN:
  "totalExpense zeroRecords = 0
   \<and> map percentage (categoryData zeroRecords) = [NaN]
   \<and> chartOffset (categoryData zeroRecords) = NaN"
  by (simp add: ex_defs eval_defs)

text \<open>
  Claim C10 as stated fails. After an expense in a category that is itself named Other
  and coloured \<open>#ff0000\<close>, the expense without category is added to that entry, which
  keeps the colour \<open>#ff0000\<close>.
\<close>

theorem other_colour_counterexample:
  "categoryData otherNamedRecords
     = [\<lparr>CategoryExpense.name = ''Other'', amount = 8, color = ''#ff0000'', percentage = Num 100\<rparr>]"
  by (simp add: ex_defs eval_defs)

subsection \<open>Expenses without a category\<close>

lemma sum_filter_remove1:
  "t \<in> set ts \<Longrightarrow> P t \<Longrightarrow>
     sum_list (map f (filter P ts)) = (f t :: rat) + sum_list (map f (filter P (remove1 t ts)))"
  by (induction ts) auto

lemma filter_eq_singleton:
  "distinct ks \<Longrightarrow> x \<in> set ks \<Longrightarrow> filter (\<lambda>n. n = x) ks = [x]"
  by (induction ks) (auto simp: filter_empty_conv)

lemma name_entryOf [simp]: "CategoryExpense.name (entryOf ts n) = n"
  by (simp add: entryOf_def)

lemma entries_named:
  assumes "x \<in> set (breakdownKeys ts)"
  shows "filter (\<lambda>e. CategoryExpense.name e = x) (categoryData ts) = [entryOf ts x]"
proof -
  have d: "distinct (keyOrder (breakdownKeys ts))"
    by (simp add: distinct_keyOrder breakdownKeys_def)
  have "filter (\<lambda>e. CategoryExpense.name e = x) (categoryData ts)
      = sortByAmountDesc (filter (\<lambda>e. CategoryExpense.name e = x)
          (map (entryOf ts) (keyOrder (breakdownKeys ts))))"
    by (simp add: categoryData_closed sortByAmountDesc_def filter_sort)
  also have "filter (\<lambda>e. CategoryExpense.name e = x) (map (entryOf ts) (keyOrder (breakdownKeys ts)))
      = map (entryOf ts) (filter (\<lambda>n. n = x) (keyOrder (breakdownKeys ts)))"
    by (simp add: filter_map comp_def)
  also have "filter (\<lambda>n. n = x) (keyOrder (breakdownKeys ts)) = [x]"
    using d assms by (simp add: filter_eq_singleton)
  finally show ?thesis by (simp add: sortByAmountDesc_def)
qed

text \<open>
  Claim C10, as the code has it. An expense record whose category reference resolves to
  no category is counted in the one entry named Other of the breakdown and in the total
  of the expenses. The colour of that entry is the colour of the first expense record
  grouped under Other: \<open>#6366f1\<close> when that record has no category.
\<close>

theorem uncategorized_expense_under_Other:
  assumes "t \<in> set ts" and "type t = Expense" and "categories t = None"
  shows "filter (\<lambda>e. CategoryExpense.name e = ''Other'') (categoryData ts)
       = [\<lparr>CategoryExpense.name = ''Other'',
           amount = Transaction.amount t + catTotal (remove1 t ts) ''Other'',
           color = firstColor ts ''Other'',
           percentage = js_times (js_div (catTotal ts ''Other'') (totalExpense ts)) 100\<rparr>]
    \<and> (\<exists>u. List.find (inCategory ''Other'') ts = Some u
            \<and> firstColor ts ''Other'' = categoryColorOf u
            \<and> (categories u = None \<longrightarrow> firstColor ts ''Other'' = ''#6366f1''))
    \<and> totalExpense ts = Transaction.amount t + totalExpense (remove1 t ts)"
proof -
  have ic: "inCategory ''Other'' t"
    using assms by (simp add: inCategory_def categoryNameOf_def)
  then have k: "''Other'' \<in> set (breakdownKeys ts)"
    using assms(1) by (auto simp: in_breakdownKeys objectPrototypeKeys_def)
  have a: "catTotal ts ''Other'' = Transaction.amount t + catTotal (remove1 t ts) ''Other''"
    unfolding catTotal_def using assms(1) ic by (rule sum_filter_remove1)
  have b: "totalExpense ts = Transaction.amount t + totalExpense (remove1 t ts)"
    unfolding totalExpense_eq sumExpenses_def using assms(1,2) by (rule sum_filter_remove1)
  obtain u where u: "List.find (inCategory ''Other'') ts = Some u"
    using assms(1) ic by (cases "List.find (inCategory ''Other'') ts") (auto simp: find_None_iff)
  have c: "firstColor ts ''Other'' = categoryColorOf u"
    using u by (simp add: firstColor_def)
  have e: "categories u = None \<longrightarrow> firstColor ts ''Other'' = ''#6366f1''"
    by (simp add: c categoryColorOf_def)
  have f: "filter (\<lambda>e. CategoryExpense.name e = ''Other'') (categoryData ts)
       = [\<lparr>CategoryExpense.name = ''Other'',
           amount = Transaction.amount t + catTotal (remove1 t ts) ''Other'',
           color = firstColor ts ''Other'',
           percentage = js_times (js_div (catTotal ts ''Other'') (totalExpense ts)) 100\<rparr>]"
    using entries_named [OF k] a by (simp add: entryOf_def totalExpense_eq)
  have g: "\<exists>u. List.find (inCategory ''Other'') ts = Some u
            \<and> firstColor ts ''Other'' = categoryColorOf u
            \<and> (categories u = None \<longrightarrow> firstColor ts ''Other'' = ''#6366f1'')"
    using u c e by (intro exI [of _ u] conjI)
  from f g b show ?thesis by (intro conjI)
qed

theorem uncategorized_expense_under_Other_witness:
  "filter (\<lambda>e. CategoryExpense.name e = ''Other'') (categoryData mixedRecords)
     = [\<lparr>CategoryExpense.name = ''Other'', amount = 3, color = ''#6366f1'',
         percentage = Num (100 / 101)\<rparr>]
   \<and> totalExpense mixedRecords = 303"
proof -
  have h: "uncategorized 3 \<in> set mixedRecords" "type (uncategorized 3) = Expense"
    "categories (uncategorized 3) = None"
    by (simp_all add: ex_defs)
  have r: "catTotal (remove1 (uncategorized 3) mixedRecords) ''Other'' = 0"
    "firstColor mixedRecords ''Other'' = ''#6366f1''"
    "catTotal mixedRecords ''Other'' = 3"
    "totalExpense (remove1 (uncategorized 3) mixedRecords) = 300"
    "Transaction.amount (uncategorized 3) = 3"
    by (simp_all add: ex_defs catTotal_def inCategory_def categoryNameOf_def firstColor_def
        categoryColorOf_def totalExpense_eq sumExpenses_def)
  show ?thesis
    using uncategorized_expense_under_Other [OF h]
    by (simp add: r js_div_def)
qed

subsection \<open>Percentages\<close>

text \<open>
  Where the total is not 0 every percentage is the share of the total times 100, and the
  percentages add up to 100 when every expense is in an entry; without expense records
  the breakdown is empty.
\<close>

lemma categoryData_set:
  "set (categoryData ts) = entryOf ts ` set (breakdownKeys ts)"
  by (simp add: categoryData_closed sortByAmountDesc_def)

lemma categoryData_percentage:
  assumes "e \<in> set (categoryData ts)"
  shows "percentage e = js_times (js_div (CategoryExpense.amount e) (totalExpense ts)) 100"
    and "totalExpense ts \<noteq> 0 \<Longrightarrow>
           percentage e = Num (CategoryExpense.amount e / totalExpense ts * 100)"
  using assms by (auto simp: categoryData_set entryOf_def totalExpense_eq js_div_def)

lemma categoryData_no_expense:
  assumes "\<forall>t\<in>set ts. type t \<noteq> Expense"
  shows "categoryData ts = []" and "totalExpense ts = 0"
proof -
  have "filter (\<lambda>t. type t = Expense) ts = []"
    using assms by (simp add: filter_empty_conv)
  then show "categoryData ts = []" and "totalExpense ts = 0"
    by (simp_all add: categoryData_closed breakdownKeys_def expenseNames_def keyOrder_def
        sortByAmountDesc_def totalExpense_eq sumExpenses_def)
qed

lemma sum_list_insort_key:
  "sum_list (map f (insort_key g x xs)) = (f x :: rat) + sum_list (map f xs)"
  by (induction xs) simp_all

lemma sum_list_sort_key:
  "sum_list (map f (sort_key g xs)) = (sum_list (map f xs) :: rat)"
  by (induction xs) (simp_all add: sum_list_insort_key)

lemma sum_list_partition:
  "sum_list (map f (filter P xs)) + sum_list (map f (filter (\<lambda>x. \<not> P x) xs))
     = (sum_list (map f xs) :: rat)"
  by (induction xs) simp_all

lemma sum_list_keyOrder: "sum_list (map f (keyOrder ks)) = (sum_list (map f ks) :: rat)"
  by (simp add: keyOrder_def sum_list_sort_key sum_list_partition)

lemma sum_list_bump:
  "distinct ks \<Longrightarrow>
     sum_list (map (\<lambda>n. f n + (if n = x then a else 0)) ks)
       = (sum_list (map f ks) :: rat) + (if x \<in> set ks then a else 0)"
  by (induction ks) auto

lemma sum_catTotal:
  "sum_list (map (catTotal ts) (breakdownKeys ts))
     = sum_list (map Transaction.amount
         (filter (\<lambda>t. type t = Expense \<and> categoryNameOf t \<notin> set objectPrototypeKeys) ts))"
proof (induction ts rule: rev_induct)
  case Nil
  show ?case by (simp add: breakdownKeys_def expenseNames_def)
next
  case (snoc t ts)
  define ks where "ks = breakdownKeys ts"
  define n where "n = categoryNameOf t"
  have dist: "distinct ks" by (simp add: ks_def breakdownKeys_def)
  have ct: "catTotal (ts @ [t]) = (\<lambda>m. catTotal ts m + (if m = n then (if type t = Expense then Transaction.amount t else 0) else 0))"
    by (auto simp: catTotal_snoc inCategory_def n_def)
  have s: "sum_list (map (catTotal (ts @ [t])) ks)
      = sum_list (map (catTotal ts) ks)
        + (if n \<in> set ks then (if type t = Expense then Transaction.amount t else 0) else 0)"
    unfolding ct using dist by (rule sum_list_bump)
  show ?case
  proof (cases "type t = Expense \<and> n \<notin> set objectPrototypeKeys")
    case False
    then have k: "breakdownKeys (ts @ [t]) = ks"
      by (auto simp: breakdownKeys_snoc ks_def n_def)
    have "n \<in> set ks \<Longrightarrow> type t \<noteq> Expense"
      using False by (auto simp: ks_def in_breakdownKeys)
    with False show ?thesis
      using snoc by (auto simp: k s ks_def [symmetric] n_def [symmetric])
  next
    case True
    show ?thesis
    proof (cases "n \<in> set ks")
      case seen: True
      then have k: "breakdownKeys (ts @ [t]) = ks"
        by (simp add: breakdownKeys_snoc ks_def n_def)
      show ?thesis
        using snoc True seen by (simp add: k s ks_def [symmetric] n_def [symmetric])
    next
      case fresh: False
      then have k: "breakdownKeys (ts @ [t]) = ks @ [n]"
        using True by (simp add: breakdownKeys_snoc ks_def n_def)
      have "\<not> (\<exists>u\<in>set ts. inCategory n u)"
        using fresh True by (simp add: ks_def in_breakdownKeys)
      then have "catTotal ts n = 0" by (rule catTotal_none)
      then have "catTotal (ts @ [t]) n = Transaction.amount t"
        using True by (simp add: ct)
      then show ?thesis
        using snoc True fresh by (simp add: k s ks_def [symmetric] n_def [symmetric])
    qed
  qed
qed

lemma chartOffset_Num:
  "\<forall>e\<in>set es. percentage e = Num (q e) \<Longrightarrow>
     foldl (\<lambda>offset category. js_plus offset (percentage category)) (Num a) es
       = Num (a + sum_list (map q es))"
  by (induction es arbitrary: a) (simp_all add: add.assoc)

lemma sum_list_scaled:
  "sum_list (map (\<lambda>n. f n / T * 100) ks) = (sum_list (map f ks) :: rat) / T * 100"
  by (induction ks) (simp_all add: add_divide_distrib distrib_right)

lemma percentages_sum_100:
  assumes "totalExpense ts \<noteq> 0"
    and "\<forall>t\<in>set ts. type t = Expense \<longrightarrow> categoryNameOf t \<notin> set objectPrototypeKeys"
  shows "chartOffset (categoryData ts) = Num 100"
proof -
  define T where "T = sumExpenses ts"
  define q where "q = (\<lambda>e::CategoryExpense. CategoryExpense.amount e / T * 100)"
  have T: "T \<noteq> 0" using assms(1) by (simp add: T_def totalExpense_eq)
  have f: "filter (\<lambda>t. type t = Expense \<and> categoryNameOf t \<notin> set objectPrototypeKeys) ts
      = filter (\<lambda>t. type t = Expense) ts"
    using assms(2) by (intro filter_cong) auto
  have tot: "sum_list (map (catTotal ts) (breakdownKeys ts)) = T"
    by (simp add: sum_catTotal f T_def sumExpenses_def)
  have p: "\<forall>e\<in>set (categoryData ts). percentage e = Num (q e)"
    using T by (auto simp: categoryData_set entryOf_def js_div_def T_def q_def)
  have "chartOffset (categoryData ts) = Num (0 + sum_list (map q (categoryData ts)))"
    unfolding chartOffset_def using p by (rule chartOffset_Num)
  also have "sum_list (map q (categoryData ts))
      = sum_list (map q (map (entryOf ts) (keyOrder (breakdownKeys ts))))"
    by (simp only: categoryData_closed sortByAmountDesc_def sum_list_sort_key)
  also have "\<dots> = sum_list (map (\<lambda>n. catTotal ts n / T * 100) (keyOrder (breakdownKeys ts)))"
    by (simp add: comp_def q_def entryOf_def)
  also have "\<dots> = sum_list (map (\<lambda>n. catTotal ts n / T * 100) (breakdownKeys ts))"
    by (rule sum_list_keyOrder)
  also have "\<dots> = sum_list (map (catTotal ts) (breakdownKeys ts)) / T * 100"
    by (rule sum_list_scaled)
  finally show ?thesis using T by (simp add: tot)
qed

lemma percentages_sum_100_march: "chartOffset (categoryData marchRecords) = Num 100"
proof -
  have "totalExpense marchRecords \<noteq> 0"
    by (simp add: totalExpense_eq sumExpenses_def ex_defs)
  moreover have "\<forall>t\<in>set marchRecords. type t = Expense \<longrightarrow> categoryNameOf t \<notin> set objectPrototypeKeys"
    by (simp add: ex_defs categoryNameOf_def objectPrototypeKeys_def)
  ultimately show ?thesis by (rule percentages_sum_100)
qed

text \<open>
  A category named \<open>constructor\<close> gets no entry, while its amount is in the total: the
  percentages then add up to less than 100.
\<close>

lemma inherited_name_has_no_entry:
  "categoryData inheritedNamedRecords
     = [\<lparr>CategoryExpense.name = ''Food'', amount = 5, color = ''#f59e0b'', percentage = Num 50\<rparr>]
   \<and> totalExpense inheritedNamedRecords = 10
   \<and> chartOffset (categoryData inheritedNamedRecords) = Num 50"
  by (simp add: ex_defs eval_defs)

lemma march_scenario:
  "categoryData marchRecords
     = [\<lparr>CategoryExpense.name = ''Food'', amount = 300, color = ''#f59e0b'', percentage = Num 60\<rparr>,
        \<lparr>CategoryExpense.name = ''Transport'', amount = 200, color = ''#8b5cf6'', percentage = Num 40\<rparr>]
   \<and> loadData marchRecords
     = \<lparr>totalIncome = 1000, totalExpenses = 500, totalSavings = 500, monthlyChange = 25 / 2\<rparr>"
  by (simp add: ex_defs eval_defs loadData_def)

section \<open>The computations leave their inputs as they are\<close>

subsection \<open>Allocation and writes\<close>

lemma preserved_iff:
  "preserved s0 s \<longleftrightarrow> length s0 \<le> length s \<and> (\<forall>a<length s0. builtin a \<or> s ! a = s0 ! a)"
  by (auto simp: preserved_def list_all_iff)

lemma preserved_refl: "preserved s s"
  by (simp add: preserved_iff)

lemma preserved_append: "preserved s0 s \<Longrightarrow> preserved s0 (s @ xs)"
  by (auto simp: preserved_iff nth_append)

lemma preserved_update:
  "preserved s0 s \<Longrightarrow> length s0 \<le> a \<or> builtin a \<Longrightarrow> preserved s0 (s[a := ob])"
proof -
  assume p: "preserved s0 s" and a: "length s0 \<le> a \<or> builtin a"
  have "builtin b \<or> s[a := ob] ! b = s0 ! b" if "b < length s0" for b
  proof (cases "b = a")
    case True
    with a that show ?thesis by simp
  next
    case False
    with p that show ?thesis by (simp add: preserved_iff)
  qed
  with p show ?thesis by (simp add: preserved_iff)
qed

lemma preserved_alloc: "preserved s0 s \<Longrightarrow> preserved s0 (fst (alloc s ob))"
  by (simp add: alloc_def preserved_append)

lemma alloc_simps [simp]: "fst (alloc s ob) = s @ [ob]" "snd (alloc s ob) = length s"
  by (simp_all add: alloc_def)

lemma length_setProp [simp]: "length (setProp s t k v) = length s"
  by (simp add: setProp_def split: jsval.splits jsobj.splits)

lemma preserved_setProp:
  "preserved s0 s \<Longrightarrow> (\<And>a. t = JRef a \<Longrightarrow> length s0 \<le> a \<or> builtin a)
     \<Longrightarrow> preserved s0 (setProp s t k v)"
  by (auto simp: setProp_def preserved_update split: jsval.splits jsobj.splits)

lemma own_setProp_other: "t \<noteq> JRef a \<Longrightarrow> own (setProp s t k v) a = own s a"
  by (auto simp: setProp_def own_def nth_list_update split: jsval.splits jsobj.splits)

lemma own_setProp_same:
  "own (setProp s (JRef a) k v) a = own s a \<or> own (setProp s (JRef a) k v) a = putOwn k v (own s a)"
  by (auto simp: setProp_def own_def split: jsobj.splits)

lemma own_append_old: "a < length s \<Longrightarrow> own (s @ xs) a = own s a"
  by (simp add: own_def nth_append)

lemma set_putOwn: "set (putOwn k v ps) \<subseteq> insert (k, v) (set ps)"
  by (induction ps) (auto split: if_splits)

lemma later_case: "(case v of JRef b \<Rightarrow> e < b | _ \<Rightarrow> False) \<longleftrightarrow> (\<exists>b. v = JRef b \<and> e < b)"
  by (cases v) auto

lemma builtin_case:
  "(case v of JRef b \<Rightarrow> builtin b | _ \<Rightarrow> True) \<longleftrightarrow> (\<forall>b. v = JRef b \<longrightarrow> builtin b)"
  by (cases v) auto

lemma laterRefs_iff: "laterRefs e ps \<longleftrightarrow> (\<forall>p\<in>set ps. \<exists>b. snd p = JRef b \<and> e < b)"
  by (simp add: laterRefs_def list_all_iff later_case)

lemma builtinRefs_iff: "builtinRefs ps \<longleftrightarrow> (\<forall>p\<in>set ps. \<forall>b. snd p = JRef b \<longrightarrow> builtin b)"
  by (simp add: builtinRefs_def list_all_iff builtin_case)

lemma laterRefs_putOwn: "laterRefs e ps \<Longrightarrow> e < b \<Longrightarrow> laterRefs e (putOwn k (JRef b) ps)"
  using set_putOwn [of k "JRef b" ps] by (fastforce simp: laterRefs_iff)

lemma builtinRefs_putOwn: "builtinRefs ps \<Longrightarrow> builtinRefs (putOwn k (JNum x) ps)"
  using set_putOwn [of k "JNum x" ps] by (fastforce simp: builtinRefs_iff)

subsection \<open>The loop over the rows\<close>

text \<open>What a read on the accumulator can yield.\<close>

lemma get_cases:
  "get s (JRef e) k = JUndefined
   \<or> get s (JRef e) k \<in> snd ` set (own s e)
   \<or> get s (JRef e) k \<in> snd ` set (own s protoAddr)"
  by (auto simp: get_def split: option.splits dest!: map_of_SomeD intro: rev_image_eqI)

lemma get_target:
  assumes "laterRefs e (own s e)" and "builtinRefs (own s protoAddr)" and "get s (JRef e) k = JRef b"
  shows "e < b \<or> builtin b"
  using get_cases [of s e k] assms by (auto simp: laterRefs_iff builtinRefs_iff)


lemma loopInv_setProp_accumulator:
  assumes "loopInv s0 e s" and "e < b"
  shows "loopInv s0 e (setProp s (JRef e) k (JRef b))"
proof -
  from assms(1) have p: "preserved s0 s" and r: "realmOK s" and e: "length s0 \<le> e" "e < length s"
    and nb: "\<not> builtin e" and l: "laterRefs e (own s e)"
    by (simp_all add: loopInv_def)
  have "preserved s0 (setProp s (JRef e) k (JRef b))"
    using p
  proof (rule preserved_setProp)
    fix a assume "JRef e = JRef a"
    with e(1) show "length s0 \<le> a \<or> builtin a" by simp
  qed
  moreover have "JRef e \<noteq> JRef protoAddr"
    using nb by (auto simp: builtin_def protoAddr_def)
  then have "own (setProp s (JRef e) k (JRef b)) protoAddr = own s protoAddr"
    by (rule own_setProp_other)
  then have "realmOK (setProp s (JRef e) k (JRef b))"
    using r by (simp add: realmOK_def)
  moreover have "laterRefs e (own (setProp s (JRef e) k (JRef b)) e)"
    using own_setProp_same [of s e k "JRef b"] l assms(2) by (auto simp: laterRefs_putOwn)
  ultimately show ?thesis
    using e nb by (simp add: loopInv_def)
qed

lemma loopInv_append:
  assumes "loopInv s0 e s"
  shows "loopInv s0 e (s @ [ob])"
proof -
  from assms have p: "preserved s0 s" and r: "realmOK s" and e: "length s0 \<le> e" "e < length s"
    and nb: "\<not> builtin e" and l: "laterRefs e (own s e)"
    by (simp_all add: loopInv_def)
  have "0 < length s" using e(2) by (cases s) simp_all
  then have "own (s @ [ob]) protoAddr = own s protoAddr"
    by (simp add: own_append_old protoAddr_def)
  moreover have "own (s @ [ob]) e = own s e"
    using e(2) by (rule own_append_old)
  ultimately show ?thesis
    using p r e nb l by (simp add: loopInv_def preserved_append realmOK_def)
qed

lemma loopInv_setProp_target:
  assumes "loopInv s0 e s" and "\<And>b. target = JRef b \<Longrightarrow> e < b \<or> builtin b"
  shows "loopInv s0 e (setProp s target k (JNum x))"
proof -
  from assms(1) have p: "preserved s0 s" and r: "realmOK s" and e: "length s0 \<le> e" "e < length s"
    and nb: "\<not> builtin e" and l: "laterRefs e (own s e)"
    by (simp_all add: loopInv_def)
  have "preserved s0 (setProp s target k (JNum x))"
    using p
  proof (rule preserved_setProp)
    fix a assume "target = JRef a"
    with assms(2) e(1) show "length s0 \<le> a \<or> builtin a" by fastforce
  qed
  moreover have "builtinRefs (own (setProp s target k (JNum x)) protoAddr)"
  proof (cases "target = JRef protoAddr")
    case True
    then show ?thesis
      using own_setProp_same [of s protoAddr k "JNum x"] r
      by (auto simp: realmOK_def builtinRefs_putOwn)
  next
    case False
    then show ?thesis
      using r by (simp add: own_setProp_other realmOK_def)
  qed
  moreover have "target \<noteq> JRef e"
    using assms(2) nb by auto
  then have "own (setProp s target k (JNum x)) e = own s e"
    by (rule own_setProp_other)
  ultimately show ?thesis
    using r e nb l by (simp add: loopInv_def realmOK_def)
qed

lemma expenseStepH_inv:
  assumes "loopInv s0 e s"
  shows "loopInv s0 e (fst (expenseStepH e (s, tot) t))"
proof (cases "get s t ''type'' = JStr ''expense''")
  case False
  with assms show ?thesis by (simp add: expenseStepH_def)
next
  case True
  define k where "k = keyOf (orElse (get s (get s t ''categories'') ''name'') (JStr ''Other''))"
  define ob where "ob = JObject [(''amount'', JNum (Num 0)),
      (''color'', orElse (get s (get s t ''categories'') ''color'') (JStr ''#6366f1''))]"
  define s1 where "s1 = (if \<not> truthy (get s (JRef e) k)
      then setProp (s @ [ob]) (JRef e) k (JRef (length s)) else s)"
  define target where "target = get s1 (JRef e) k"
  define x where "x = js_plus (toNumber (get s1 target ''amount'')) (toNumber (get s t ''amount''))"
  have res: "fst (expenseStepH e (s, tot) t) = setProp s1 target ''amount'' (JNum x)"
    using True
    by (simp add: expenseStepH_def Let_def alloc_def k_def ob_def s1_def target_def x_def)
  have e: "e < length s" using assms by (simp add: loopInv_def)
  have inv1: "loopInv s0 e s1"
    unfolding s1_def using assms e
    by (simp add: loopInv_setProp_accumulator loopInv_append)
  have "e < b \<or> builtin b" if "target = JRef b" for b
  proof (rule get_target)
    show "laterRefs e (own s1 e)" using inv1 by (simp add: loopInv_def)
    show "builtinRefs (own s1 protoAddr)" using inv1 by (simp add: loopInv_def realmOK_def)
    show "get s1 (JRef e) k = JRef b" using that by (simp add: target_def)
  qed
  with inv1 show ?thesis
    unfolding res by (rule loopInv_setProp_target)
qed

lemma iter_invariant:
  assumes "P (fst st)" and "\<And>s acc v. P s \<Longrightarrow> P (fst (callback (s, acc) v))"
  shows "P (fst (iter arr callback st))"
proof -
  have "P (fst (foldl (\<lambda>st i. if i < length (elems (fst st) arr)
                    then callback st (elems (fst st) arr ! i) else st) st is))" for "is"
    using assms(1)
  proof (induction "is" arbitrary: st)
    case Nil
    then show ?case by simp
  next
    case (Cons i "is")
    show ?case
      using Cons.prems assms(2) [of "fst st" "snd st"]
      by (auto intro!: Cons.IH)
  qed
  then show ?thesis by (simp add: iter_def)
qed

subsection \<open>Steps that only allocate\<close>

lemma iter_grows:
  assumes "\<And>s acc v. \<exists>xs. fst (callback (s, acc) v) = s @ xs"
  shows "\<exists>xs. fst (iter arr callback (s, acc)) = s @ xs"
proof -
  have "\<exists>xs. fst (iter arr callback (s, acc)) = s @ xs"
  proof (rule iter_invariant [where P = "\<lambda>s'. \<exists>xs. s' = s @ xs"])
    show "\<exists>xs. fst (s, acc) = s @ xs" by simp
  next
    fix s' acc' v
    assume "\<exists>xs. s' = s @ xs"
    then obtain xs where "s' = s @ xs" ..
    moreover obtain ys where "fst (callback (s', acc') v) = s' @ ys"
      using assms by blast
    ultimately show "\<exists>xs. fst (callback (s', acc') v) = s @ xs" by simp
  qed
  then show ?thesis .
qed

lemma mapH_grows:
  fixes f :: "store \<Rightarrow> jsval \<Rightarrow> store \<times> jsval" and s :: store
  assumes "\<And>s' v. \<exists>xs. fst (f s' v) = s' @ xs"
  shows "\<exists>xs. fst (mapH f s arr) = s @ xs \<and> snd (mapH f s arr) = length s + length xs - 1 \<and> xs \<noteq> []"
proof -
  define cb where "cb = (\<lambda>st v. case f (fst st) v of (s', w) \<Rightarrow> (s', snd st @ [w]))"
  have "\<exists>xs. fst (cb (s', acc) v) = s' @ xs" for s' acc v
    using assms [of s' v] by (auto simp: cb_def split: prod.splits)
  then obtain xs where xs: "fst (iter arr cb (s, [])) = s @ xs"
    using iter_grows [of cb arr s "[]"] by blast
  obtain s' out where so: "iter arr cb (s, []) = (s', out)" by (cases "iter arr cb (s, [])")
  with xs have "s' = s @ xs" by simp
  then have "fst (mapH f s arr) = s @ (xs @ [JArray out])"
    and "snd (mapH f s arr) = length s + length (xs @ [JArray out]) - 1"
    using so by (simp_all add: mapH_def cb_def [symmetric] alloc_def)
  then show ?thesis by blast
qed

lemma toCategoryExpense_grows: "\<exists>xs. fst (toCategoryExpense tot s v) = s @ xs"
  by (simp add: toCategoryExpense_def Let_def alloc_def)

lemma recentOf_grows: "\<exists>xs. fst (recentOf s v) = s @ xs"
  by (simp add: recentOf_def alloc_def)

lemma entriesH_grows:
  "\<exists>xs. fst (entriesH s obj) = s @ xs \<and> snd (entriesH s obj) = length s + length xs - 1 \<and> xs \<noteq> []"
proof -
  have "\<exists>xs. fst (foldl (\<lambda>(s', out) (k, v). case alloc s' (JArray [JStr k, v]) of
                       (s'', pair) \<Rightarrow> (s'', out @ [JRef pair])) (s1, out) ps) = s1 @ xs"
    for s1 out ps
  proof (induction ps arbitrary: s1 out)
    case Nil
    show ?case by simp
  next
    case (Cons p ps)
    obtain k v where p: "p = (k, v)" by (cases p)
    obtain xs where "fst (foldl (\<lambda>(s', out) (k, v). case alloc s' (JArray [JStr k, v]) of
                       (s'', pair) \<Rightarrow> (s'', out @ [JRef pair]))
                       (s1 @ [JArray [JStr k, v]], out @ [JRef (length s1)]) ps)
                     = (s1 @ [JArray [JStr k, v]]) @ xs"
      using Cons.IH by blast
    then show ?case by (simp add: p alloc_def)
  qed
  then obtain xs where xs: "fst (foldl (\<lambda>(s', out) (k, v). case alloc s' (JArray [JStr k, v]) of
                       (s'', pair) \<Rightarrow> (s'', out @ [JRef pair])) (s, []) (ownEntries (own s obj))) = s @ xs"
    by blast
  obtain s' out where so: "foldl (\<lambda>(s', out) (k, v). case alloc s' (JArray [JStr k, v]) of
                       (s'', pair) \<Rightarrow> (s'', out @ [JRef pair])) (s, []) (ownEntries (own s obj)) = (s', out)"
    by (cases "foldl (\<lambda>(s', out) (k, v). case alloc s' (JArray [JStr k, v]) of
                       (s'', pair) \<Rightarrow> (s'', out @ [JRef pair])) (s, []) (ownEntries (own s obj))")
  with xs have "s' = s @ xs" by simp
  then have "fst (entriesH s obj) = s @ (xs @ [JArray out])"
    and "snd (entriesH s obj) = length s + length (xs @ [JArray out]) - 1"
    using so by (simp_all add: entriesH_def alloc_def)
  then show ?thesis by blast
qed

lemma preserved_sortH: "preserved s0 s \<Longrightarrow> length s0 \<le> arr \<Longrightarrow> preserved s0 (sortH s arr)"
  by (simp add: sortH_def preserved_update split: jsobj.splits)

lemma length_sortH [simp]: "length (sortH s arr) = length s"
  by (simp add: sortH_def split: jsobj.splits)

lemma preserved_pushH: "preserved s0 s \<Longrightarrow> length s0 \<le> arr \<Longrightarrow> preserved s0 (pushH s arr v)"
  by (simp add: pushH_def preserved_update split: jsobj.splits)

lemma length_pushH [simp]: "length (pushH s arr v) = length s"
  by (simp add: pushH_def split: jsobj.splits)

subsection \<open>The three computations\<close>

lemma loopInv_initial:
  assumes "realmOK s0"
  shows "loopInv s0 (length s0) (s0 @ [JObject []])"
proof -
  have len: "length objectPrototypeKeys < length s0" using assms by (simp add: realmOK_def)
  then have "protoAddr < length s0" by (cases s0) (simp_all add: protoAddr_def)
  then have "own (s0 @ [JObject []]) protoAddr = own s0 protoAddr"
    by (rule own_append_old)
  moreover have "own (s0 @ [JObject []]) (length s0) = []"
    by (simp add: own_def)
  ultimately show ?thesis
    using assms len
    by (simp add: loopInv_def preserved_append preserved_refl realmOK_def builtin_def laterRefs_def)
qed

lemma categoryDataH_frame:
  assumes "realmOK s0"
  shows "preserved s0 (fst (categoryDataH s0 transactions))"
    and "length s0 \<le> snd (categoryDataH s0 transactions)"
    and "snd (categoryDataH s0 transactions) < length (fst (categoryDataH s0 transactions))"
proof -
  define e where "e = length s0"
  define s1 where "s1 = s0 @ [JObject []]"
  obtain s2 tot where it: "iter transactions (expenseStepH e) (s1, Num 0) = (s2, tot)"
    by (cases "iter transactions (expenseStepH e) (s1, Num 0)")
  obtain s3 entries where en: "entriesH s2 e = (s3, entries)" by (cases "entriesH s2 e")
  obtain s4 r where mp: "mapH (toCategoryExpense tot) s3 entries = (s4, r)"
    by (cases "mapH (toCategoryExpense tot) s3 entries")
  have res: "categoryDataH s0 transactions = (sortH s4 r, r)"
    by (simp add: categoryDataH_def alloc_def it [unfolded e_def s1_def] en [unfolded e_def]
        mp)
  have "loopInv s0 e (fst (iter transactions (expenseStepH e) (s1, Num 0)))"
  proof (rule iter_invariant)
    show "loopInv s0 e (fst (s1, Num 0))"
      using loopInv_initial [OF assms] by (simp add: e_def s1_def)
  qed (rule expenseStepH_inv)
  then have p2: "preserved s0 s2" by (simp add: it loopInv_def)
  obtain xs where xs: "s3 = s2 @ xs"
    using entriesH_grows [of s2 e] by (auto simp: en)
  obtain ys where ys: "s4 = s3 @ ys" "r = length s3 + length ys - 1" "ys \<noteq> []"
    using mapH_grows [of "toCategoryExpense tot" s3 entries, OF toCategoryExpense_grows]
    by (auto simp: mp)
  have p4: "preserved s0 s4"
    using p2 by (simp add: xs ys preserved_append)
  have "length s0 \<le> length s2" using p2 by (simp add: preserved_iff)
  then have r: "length s0 \<le> r" "r < length s4"
    using ys by (cases ys; simp add: xs)+
  show "preserved s0 (fst (categoryDataH s0 transactions))"
    using p4 r by (simp add: res preserved_sortH)
  show "length s0 \<le> snd (categoryDataH s0 transactions)"
    using r by (simp add: res)
  show "snd (categoryDataH s0 transactions) < length (fst (categoryDataH s0 transactions))"
    using r by (simp add: res)
qed

lemma filterH_grows: "fst (filterH p s arr) = s @ [JArray (filter (p s) (elems s arr))]"
  "snd (filterH p s arr) = length s"
  by (simp_all add: filterH_def alloc_def)

lemma sliceH_grows: "fst (sliceH s arr n) = s @ [JArray (take n (elems s arr))]"
  "snd (sliceH s arr n) = length s"
  by (simp_all add: sliceH_def alloc_def)

lemma loadDataH_frame:
  "preserved s0 (fst (loadDataH s0 transactions))"
  "length s0 \<le> fst (snd (loadDataH s0 transactions))"
  "length s0 \<le> snd (snd (loadDataH s0 transactions))"
proof -
  obtain s1 incomeRows
    where f1: "filterH (\<lambda>s t. get s t ''type'' = JStr ''income'') s0 transactions = (s1, incomeRows)"
    by (cases "filterH (\<lambda>s t. get s t ''type'' = JStr ''income'') s0 transactions")
  obtain s2 expenseRows
    where f2: "filterH (\<lambda>s t. get s t ''type'' = JStr ''expense'') s1 transactions = (s2, expenseRows)"
    by (cases "filterH (\<lambda>s t. get s t ''type'' = JStr ''expense'') s1 transactions")
  define st where "st = JObject
                 [(''totalIncome'', JNum (reduceAmounts s1 incomeRows)),
                  (''totalExpenses'', JNum (reduceAmounts s2 expenseRows)),
                  (''totalSavings'',
                     JNum (js_minus (reduceAmounts s1 incomeRows) (reduceAmounts s2 expenseRows))),
                  (''monthlyChange'', JNum (Num (25 / 2)))]"
  obtain s4 firstFive where sl: "sliceH (s2 @ [st]) transactions 5 = (s4, firstFive)"
    by (cases "sliceH (s2 @ [st]) transactions 5")
  obtain s5 recent where mp: "mapH recentOf s4 firstFive = (s5, recent)"
    by (cases "mapH recentOf s4 firstFive")
  have res: "loadDataH s0 transactions = (s5, length s2, recent)"
    by (simp add: loadDataH_def f1 f2 Let_def alloc_def st_def [symmetric] sl mp)
  have l1: "s1 = s0 @ [JArray (filter (\<lambda>t. get s0 t ''type'' = JStr ''income'') (elems s0 transactions))]"
    using filterH_grows(1) [of "\<lambda>s t. get s t ''type'' = JStr ''income''" s0 transactions]
    by (simp add: f1)
  have l2: "s2 = s1 @ [JArray (filter (\<lambda>t. get s1 t ''type'' = JStr ''expense'') (elems s1 transactions))]"
    using filterH_grows(1) [of "\<lambda>s t. get s t ''type'' = JStr ''expense''" s1 transactions]
    by (simp add: f2)
  have l4: "s4 = (s2 @ [st]) @ [JArray (take 5 (elems (s2 @ [st]) transactions))]"
    using sliceH_grows(1) [of "s2 @ [st]" transactions 5] by (simp add: sl)
  obtain ys where ys: "s5 = s4 @ ys" "recent = length s4 + length ys - 1" "ys \<noteq> []"
    using mapH_grows [of recentOf s4 firstFive, OF recentOf_grows]
    by (auto simp: mp)
  have "preserved s0 s1" by (simp add: l1 preserved_append preserved_refl)
  then have "preserved s0 s2" by (simp add: l2 preserved_append)
  then have "preserved s0 s4" by (simp add: l4 preserved_append)
  then show "preserved s0 (fst (loadDataH s0 transactions))"
    by (simp add: res ys preserved_append)
  have n2: "length s0 \<le> length s2" by (simp add: l2 l1)
  then show "length s0 \<le> fst (snd (loadDataH s0 transactions))"
    by (simp add: res)
  have "length s2 \<le> length s4" by (simp add: l4)
  with n2 show "length s0 \<le> snd (snd (loadDataH s0 transactions))"
    using ys by (cases ys) (simp_all add: res)
qed

lemma monthIterationH_preserved:
  assumes "preserved s0 s" and "length s0 \<le> series"
  shows "preserved s0 (monthIterationH now fetch series s i)"
proof -
  have "\<exists>ob. monthIterationH now fetch series s i = pushH (s @ [ob]) series (JRef (length s))"
    by (auto simp: monthIterationH_def Let_def alloc_def split: prod.splits)
  then obtain ob
    where "monthIterationH now fetch series s i = pushH (s @ [ob]) series (JRef (length s))" ..
  then show ?thesis
    using assms by (simp add: preserved_pushH preserved_append)
qed

lemma monthlyStatsH_frame:
  "preserved s0 (fst (monthlyStatsH now fetch s0))"
  "snd (monthlyStatsH now fetch s0) = length s0"
proof -
  have res: "monthlyStatsH now fetch s0
      = (foldl (monthIterationH now fetch (length s0)) (s0 @ [JArray []]) [5, 4, 3, 2, 1, 0], length s0)"
    by (simp add: monthlyStatsH_def alloc_def)
  have "preserved s0 (foldl (monthIterationH now fetch (length s0)) s is)" if "preserved s0 s" for s "is"
    using that by (induction "is" arbitrary: s) (simp_all add: monthIterationH_preserved)
  moreover have "preserved s0 (s0 @ [JArray []])"
    by (simp add: preserved_append preserved_refl)
  ultimately have "preserved s0 (foldl (monthIterationH now fetch (length s0)) (s0 @ [JArray []]) [5, 4, 3, 2, 1, 0])"
    by blast
  then show "preserved s0 (fst (monthlyStatsH now fetch s0))"
    by (simp only: res fst_conv)
  show "snd (monthlyStatsH now fetch s0) = length s0"
    by (simp only: res snd_conv)
qed

lemma preserved_object:
  assumes "preserved s0 s" and "a < length s0" and "\<not> builtin a"
  shows "s ! a = s0 ! a" and "own s a = own s0 a" and "elems s a = elems s0 a"
proof -
  show "s ! a = s0 ! a" using assms by (auto simp: preserved_iff)
  moreover have "a < length s" using assms by (simp add: preserved_iff)
  ultimately show "own s a = own s0 a" and "elems s a = elems s0 a"
    using assms(2) by (simp_all add: own_def elems_def)
qed

lemma preserved_user_objects:
  assumes "preserved s0 s"
  shows "drop (Suc (length objectPrototypeKeys)) (take (length s0) s)
       = drop (Suc (length objectPrototypeKeys)) s0"
proof (rule nth_equalityI)
  show "length (drop (Suc (length objectPrototypeKeys)) (take (length s0) s))
      = length (drop (Suc (length objectPrototypeKeys)) s0)"
    using assms by (simp add: preserved_iff)
next
  fix i
  assume "i < length (drop (Suc (length objectPrototypeKeys)) (take (length s0) s))"
  then have i: "Suc (length objectPrototypeKeys) + i < length s0"
    by simp
  moreover have "\<not> builtin (Suc (length objectPrototypeKeys) + i)"
    by (simp add: builtin_def)
  ultimately have "s ! (Suc (length objectPrototypeKeys) + i) = s0 ! (Suc (length objectPrototypeKeys) + i)"
    using assms by (rule preserved_object(1) [rotated])
  with i show "drop (Suc (length objectPrototypeKeys)) (take (length s0) s) ! i
      = drop (Suc (length objectPrototypeKeys)) s0 ! i"
    using assms by (simp add: preserved_iff)
qed

lemma storeRows_grows: "\<exists>xs. fst (storeRows s ts) = s @ xs"
proof (induction ts arbitrary: s)
  case Nil
  show ?case by simp
next
  case (Cons t ts)
  show ?case
  proof (cases "categories t")
    case None
    obtain xs where "fst (storeRows (s @ [rowObject t JNull]) ts) = (s @ [rowObject t JNull]) @ xs"
      using Cons.IH by blast
    then show ?thesis
      by (auto simp: None alloc_def split: prod.splits)
  next
    case (Some c)
    obtain xs where "fst (storeRows ((s @ [categoryObject c]) @ [rowObject t (JRef (length s))]) ts)
        = ((s @ [categoryObject c]) @ [rowObject t (JRef (length s))]) @ xs"
      using Cons.IH by blast
    then show ?thesis
      by (auto simp: Some alloc_def split: prod.splits)
  qed
qed

lemma realmOK_realm_append: "realmOK (realm @ xs)"
proof -
  have "own (realm @ xs) protoAddr = own realm protoAddr"
    by (rule own_append_old) (simp add: realm_def protoAddr_def)
  moreover have "builtinRefs (own realm protoAddr)"
    by (simp add: realm_def own_def protoAddr_def objectPrototypeKeys_def enumerate_eq_zip
        builtinRefs_def builtin_def upt_rec)
  ultimately show ?thesis
    by (simp add: realmOK_def realm_def)
qed

lemma realmOK_storeOf: "realmOK (fst (storeOf ts))"
proof -
  obtain xs where "fst (storeRows realm ts) = realm @ xs"
    using storeRows_grows by blast
  then have "fst (storeOf ts) = realm @ (xs @ [JArray (snd (storeRows realm ts))])"
    by (cases "storeRows realm ts") (simp add: storeOf_def alloc_def)
  then show ?thesis by (simp only: realmOK_realm_append)
qed

text \<open>
  For a list of records laid out in a store, all that was laid out is found again, as
  it was, after each of the computations.
\<close>

lemma records_unchanged:
  "drop (length realm) (take (length (fst (storeOf ts)))
       (fst (categoryDataH (fst (storeOf ts)) (snd (storeOf ts)))))
     = drop (length realm) (fst (storeOf ts))"
  "drop (length realm) (take (length (fst (storeOf ts)))
       (fst (loadDataH (fst (storeOf ts)) (snd (storeOf ts)))))
     = drop (length realm) (fst (storeOf ts))"
  "drop (length realm) (take (length (fst (storeOf ts)))
       (fst (monthlyStatsH now fetch (fst (storeOf ts)))))
     = drop (length realm) (fst (storeOf ts))"
proof -
  have l: "length realm = Suc (length objectPrototypeKeys)"
    by (simp add: realm_def)
  show "drop (length realm) (take (length (fst (storeOf ts)))
       (fst (categoryDataH (fst (storeOf ts)) (snd (storeOf ts)))))
     = drop (length realm) (fst (storeOf ts))"
    unfolding l by (rule preserved_user_objects) (rule categoryDataH_frame(1) [OF realmOK_storeOf])
  show "drop (length realm) (take (length (fst (storeOf ts)))
       (fst (loadDataH (fst (storeOf ts)) (snd (storeOf ts)))))
     = drop (length realm) (fst (storeOf ts))"
    unfolding l by (rule preserved_user_objects) (rule loadDataH_frame(1))
  show "drop (length realm) (take (length (fst (storeOf ts)))
       (fst (monthlyStatsH now fetch (fst (storeOf ts)))))
     = drop (length realm) (fst (storeOf ts))"
    unfolding l by (rule preserved_user_objects) (rule monthlyStatsH_frame(1))
qed

subsection \<open>The results are new objects\<close>

lemma mapH_alloc:
  fixes f :: "store \<Rightarrow> jsval \<Rightarrow> store \<times> jsval" and s :: store
  assumes "\<And>s' v. \<exists>xs. fst (f s' v) = s' @ xs"
  shows "\<exists>xs out. fst (mapH f s arr) = s @ xs @ [JArray out]
           \<and> snd (mapH f s arr) = length s + length xs"
proof -
  define cb where "cb = (\<lambda>st v. case f (fst st) v of (s', w) \<Rightarrow> (s', snd st @ [w]))"
  have "\<exists>xs. fst (cb (s', acc) v) = s' @ xs" for s' acc v
    using assms [of s' v] by (auto simp: cb_def split: prod.splits)
  then obtain xs where xs: "fst (iter arr cb (s, [])) = s @ xs"
    using iter_grows [of cb arr s "[]"] by blast
  obtain s' out where so: "iter arr cb (s, []) = (s', out)" by (cases "iter arr cb (s, [])")
  with xs have "s' = s @ xs" by simp
  then have "fst (mapH f s arr) = s @ xs @ [JArray out]"
    and "snd (mapH f s arr) = length s + length xs"
    using so by (simp_all add: mapH_def cb_def [symmetric] alloc_def)
  then show ?thesis by blast
qed

lemma sortH_array:
  "arr < length s \<Longrightarrow> s ! arr = JArray vs \<Longrightarrow> \<exists>ws. sortH s arr ! arr = JArray ws"
  by (simp add: sortH_def)

lemma categoryDataH_result:
  "snd (categoryDataH s0 transactions) < length (fst (categoryDataH s0 transactions))"
  "\<exists>vs. fst (categoryDataH s0 transactions) ! snd (categoryDataH s0 transactions) = JArray vs"
proof -
  define e where "e = length s0"
  define s1 where "s1 = s0 @ [JObject []]"
  obtain s2 tot where it: "iter transactions (expenseStepH e) (s1, Num 0) = (s2, tot)"
    by (cases "iter transactions (expenseStepH e) (s1, Num 0)")
  obtain s3 entries where en: "entriesH s2 e = (s3, entries)" by (cases "entriesH s2 e")
  obtain s4 r where mp: "mapH (toCategoryExpense tot) s3 entries = (s4, r)"
    by (cases "mapH (toCategoryExpense tot) s3 entries")
  have res: "categoryDataH s0 transactions = (sortH s4 r, r)"
    by (simp add: categoryDataH_def alloc_def it [unfolded e_def s1_def] en [unfolded e_def]
        mp)
  obtain xs out where "s4 = s3 @ xs @ [JArray out]" "r = length s3 + length xs"
    using mapH_alloc [of "toCategoryExpense tot" s3 entries, OF toCategoryExpense_grows]
    by (auto simp: mp)
  then have r: "r < length s4" "s4 ! r = JArray out"
    by (simp_all add: nth_append)
  show "snd (categoryDataH s0 transactions) < length (fst (categoryDataH s0 transactions))"
    using r by (simp add: res)
  show "\<exists>vs. fst (categoryDataH s0 transactions) ! snd (categoryDataH s0 transactions) = JArray vs"
    using sortH_array [OF r] by (simp add: res)
qed

lemma loadDataH_result:
  "fst (snd (loadDataH s0 transactions)) < length (fst (loadDataH s0 transactions))"
  "\<exists>ps. fst (loadDataH s0 transactions) ! fst (snd (loadDataH s0 transactions)) = JObject ps"
  "snd (snd (loadDataH s0 transactions)) < length (fst (loadDataH s0 transactions))"
  "\<exists>vs. fst (loadDataH s0 transactions) ! snd (snd (loadDataH s0 transactions)) = JArray vs"
proof -
  obtain s1 incomeRows
    where f1: "filterH (\<lambda>s t. get s t ''type'' = JStr ''income'') s0 transactions = (s1, incomeRows)"
    by (cases "filterH (\<lambda>s t. get s t ''type'' = JStr ''income'') s0 transactions")
  obtain s2 expenseRows
    where f2: "filterH (\<lambda>s t. get s t ''type'' = JStr ''expense'') s1 transactions = (s2, expenseRows)"
    by (cases "filterH (\<lambda>s t. get s t ''type'' = JStr ''expense'') s1 transactions")
  define st where "st = JObject
                 [(''totalIncome'', JNum (reduceAmounts s1 incomeRows)),
                  (''totalExpenses'', JNum (reduceAmounts s2 expenseRows)),
                  (''totalSavings'',
                     JNum (js_minus (reduceAmounts s1 incomeRows) (reduceAmounts s2 expenseRows))),
                  (''monthlyChange'', JNum (Num (25 / 2)))]"
  obtain s4 firstFive where sl: "sliceH (s2 @ [st]) transactions 5 = (s4, firstFive)"
    by (cases "sliceH (s2 @ [st]) transactions 5")
  obtain s5 recent where mp: "mapH recentOf s4 firstFive = (s5, recent)"
    by (cases "mapH recentOf s4 firstFive")
  have res: "loadDataH s0 transactions = (s5, length s2, recent)"
    by (simp add: loadDataH_def f1 f2 Let_def alloc_def st_def [symmetric] sl mp)
  have l4: "s4 = (s2 @ [st]) @ [JArray (take 5 (elems (s2 @ [st]) transactions))]"
    using sliceH_grows(1) [of "s2 @ [st]" transactions 5] by (simp add: sl)
  obtain xs out where m: "s5 = s4 @ xs @ [JArray out]" "recent = length s4 + length xs"
    using mapH_alloc [of recentOf s4 firstFive, OF recentOf_grows]
    by (auto simp: mp)
  have a: "length s2 < length s5" "s5 ! length s2 = st"
    by (simp_all add: m l4 nth_append)
  have b: "recent < length s5" "s5 ! recent = JArray out"
    by (simp_all add: m nth_append)
  show "fst (snd (loadDataH s0 transactions)) < length (fst (loadDataH s0 transactions))"
    using a by (simp add: res)
  show "\<exists>ps. fst (loadDataH s0 transactions) ! fst (snd (loadDataH s0 transactions)) = JObject ps"
    using a by (simp add: res st_def)
  show "snd (snd (loadDataH s0 transactions)) < length (fst (loadDataH s0 transactions))"
    using b by (simp add: res)
  show "\<exists>vs. fst (loadDataH s0 transactions) ! snd (snd (loadDataH s0 transactions)) = JArray vs"
    using b by (simp add: res)
qed

lemma monthIterationH_series:
  assumes "series < length s" and "\<exists>vs. s ! series = JArray vs"
  shows "series < length (monthIterationH now fetch series s i)
       \<and> (\<exists>vs. monthIterationH now fetch series s i ! series = JArray vs)"
proof -
  have "\<exists>ob. monthIterationH now fetch series s i = pushH (s @ [ob]) series (JRef (length s))"
    by (auto simp: monthIterationH_def Let_def alloc_def split: prod.splits)
  then obtain ob
    where "monthIterationH now fetch series s i = pushH (s @ [ob]) series (JRef (length s))" ..
  then show ?thesis
    using assms by (auto simp: pushH_def nth_append)
qed

lemma monthlyStatsH_result:
  "snd (monthlyStatsH now fetch s0) < length (fst (monthlyStatsH now fetch s0))"
  "\<exists>vs. fst (monthlyStatsH now fetch s0) ! snd (monthlyStatsH now fetch s0) = JArray vs"
proof -
  have res: "monthlyStatsH now fetch s0
      = (foldl (monthIterationH now fetch (length s0)) (s0 @ [JArray []]) [5, 4, 3, 2, 1, 0], length s0)"
    by (simp add: monthlyStatsH_def alloc_def)
  have "length s0 < length (foldl (monthIterationH now fetch (length s0)) s is)
       \<and> (\<exists>vs. foldl (monthIterationH now fetch (length s0)) s is ! length s0 = JArray vs)"
    if "length s0 < length s" "\<exists>vs. s ! length s0 = JArray vs" for s "is"
    using that
  proof (induction "is" arbitrary: s)
    case Nil
    then show ?case by simp
  next
    case (Cons i "is")
    show ?case
      using monthIterationH_series [OF Cons.prems, of now fetch i] Cons.IH by simp
  qed
  moreover have "length s0 < length (s0 @ [JArray []])" "\<exists>vs. (s0 @ [JArray []]) ! length s0 = JArray vs"
    by simp_all
  ultimately have r: "length s0 < length (foldl (monthIterationH now fetch (length s0)) (s0 @ [JArray []]) [5, 4, 3, 2, 1, 0])
       \<and> (\<exists>vs. foldl (monthIterationH now fetch (length s0)) (s0 @ [JArray []]) [5, 4, 3, 2, 1, 0] ! length s0 = JArray vs)"
    by blast
  show "snd (monthlyStatsH now fetch s0) < length (fst (monthlyStatsH now fetch s0))"
    using r by (simp only: res fst_conv snd_conv)
  show "\<exists>vs. fst (monthlyStatsH now fetch s0) ! snd (monthlyStatsH now fetch s0) = JArray vs"
    using r by (simp only: res fst_conv snd_conv)
qed

text \<open>
  Claim C9. Computing the breakdown by category, the totals (with the recent rows) and
  the monthly series leaves every object that was in the store before, other than the
  built-in ones, exactly as it was: the array of records, each record and each category
  among them. Each computation returns an object of its own: the address it returns was
  not in use before, and the resulting store holds there the array of the breakdown, the
  statistics object, the array of the recent rows and the array of the series.
\<close>

theorem aggregations_leave_inputs_unchanged:
  assumes "realmOK s0"
  shows "preserved s0 (fst (categoryDataH s0 transactions))
       \<and> length s0 \<le> snd (categoryDataH s0 transactions)
       \<and> snd (categoryDataH s0 transactions) < length (fst (categoryDataH s0 transactions))
       \<and> (\<exists>vs. fst (categoryDataH s0 transactions) ! snd (categoryDataH s0 transactions) = JArray vs)
       \<and> preserved s0 (fst (loadDataH s0 transactions))
       \<and> length s0 \<le> fst (snd (loadDataH s0 transactions))
       \<and> fst (snd (loadDataH s0 transactions)) < length (fst (loadDataH s0 transactions))
       \<and> (\<exists>ps. fst (loadDataH s0 transactions) ! fst (snd (loadDataH s0 transactions)) = JObject ps)
       \<and> length s0 \<le> snd (snd (loadDataH s0 transactions))
       \<and> snd (snd (loadDataH s0 transactions)) < length (fst (loadDataH s0 transactions))
       \<and> (\<exists>vs. fst (loadDataH s0 transactions) ! snd (snd (loadDataH s0 transactions)) = JArray vs)
       \<and> preserved s0 (fst (monthlyStatsH now fetch s0))
       \<and> length s0 \<le> snd (monthlyStatsH now fetch s0)
       \<and> snd (monthlyStatsH now fetch s0) < length (fst (monthlyStatsH now fetch s0))
       \<and> (\<exists>vs. fst (monthlyStatsH now fetch s0) ! snd (monthlyStatsH now fetch s0) = JArray vs)"
  using categoryDataH_frame(1,2) [OF assms] loadDataH_frame monthlyStatsH_frame
    categoryDataH_result loadDataH_result monthlyStatsH_result
  by simp

theorem aggregations_leave_inputs_unchanged_witness:
  "realmOK (fst (storeOf marchRecords))
   \<and> preserved (fst (storeOf marchRecords))
        (fst (categoryDataH (fst (storeOf marchRecords)) (snd (storeOf marchRecords))))
   \<and> length (fst (storeOf marchRecords))
        \<le> snd (categoryDataH (fst (storeOf marchRecords)) (snd (storeOf marchRecords)))
   \<and> snd (categoryDataH (fst (storeOf marchRecords)) (snd (storeOf marchRecords)))
        < length (fst (categoryDataH (fst (storeOf marchRecords)) (snd (storeOf marchRecords))))
   \<and> preserved (fst (storeOf marchRecords))
        (fst (loadDataH (fst (storeOf marchRecords)) (snd (storeOf marchRecords))))
   \<and> preserved (fst (storeOf marchRecords))
        (fst (monthlyStatsH \<lparr>getFullYear = 2024, getMonth = 2, getDate = 28\<rparr>
               (\<lambda>y m. snd (storeOf marchRecords)) (fst (storeOf marchRecords))))"
  using aggregations_leave_inputs_unchanged [OF realmOK_storeOf, of marchRecords
      "snd (storeOf marchRecords)" "\<lparr>getFullYear = 2024, getMonth = 2, getDate = 28\<rparr>"
      "\<lambda>y m. snd (storeOf marchRecords)"]
  by (simp add: realmOK_storeOf)

text \<open>
  On the example record lists the computation on the store yields the breakdown that
  \<open>categoryData\<close> computes.
\<close>

lemma store_agrees_march:
  "(case storeOf marchRecords of (s, ta) \<Rightarrow>
      case categoryDataH s ta of (s', r) \<Rightarrow> map (readCategoryExpense s') (elems s' r))
   = categoryData marchRecords"
  by code_simp

lemma store_agrees_tied:
  "(case storeOf tiedRecords of (s, ta) \<Rightarrow>
      case categoryDataH s ta of (s', r) \<Rightarrow> map (readCategoryExpense s') (elems s' r))
   = categoryData tiedRecords"
  by code_simp

lemma store_agrees_numeral_named:
  "(case storeOf numeralNamedRecords of (s, ta) \<Rightarrow>
      case categoryDataH s ta of (s', r) \<Rightarrow> map (readCategoryExpense s') (elems s' r))
   = categoryData numeralNamedRecords"
  by code_simp

lemma store_agrees_other_named:
  "(case storeOf otherNamedRecords of (s, ta) \<Rightarrow>
      case categoryDataH s ta of (s', r) \<Rightarrow> map (readCategoryExpense s') (elems s' r))
   = categoryData otherNamedRecords"
  by code_simp

lemma store_agrees_zero:
  "(case storeOf zeroRecords of (s, ta) \<Rightarrow>
      case categoryDataH s ta of (s', r) \<Rightarrow> map (readCategoryExpense s') (elems s' r))
   = categoryData zeroRecords"
  by code_simp

text \<open>The statistics on the store, for the records of March 2024.\<close>

lemma store_agrees_stats_march:
  "(case storeOf marchRecords of (s, ta) \<Rightarrow>
      case loadDataH s ta of (s', stats, recent) \<Rightarrow>
        (toNumber (get s' (JRef stats) ''totalIncome''),
         toNumber (get s' (JRef stats) ''totalExpenses''),
         toNumber (get s' (JRef stats) ''totalSavings'')))
   = (Num (totalIncome (loadData marchRecords)), Num (totalExpenses (loadData marchRecords)),
      Num (totalSavings (loadData marchRecords)))"
  by code_simp

lemma store_agrees_inherited_named:
  "(case storeOf inheritedNamedRecords of (s, ta) \<Rightarrow>
      case categoryDataH s ta of (s', r) \<Rightarrow> map (readCategoryExpense s') (elems s' r))
   = categoryData inheritedNamedRecords"
  by code_simp

text \<open>
  There the amount is added to a property of the inherited function object, which is
  built in and was in the store before.
\<close>

lemma store_inherited_target_written:
  "(case storeOf inheritedNamedRecords of (s, ta) \<Rightarrow>
      case categoryDataH s ta of (s', r) \<Rightarrow> (own s 1, own s' 1))
   = ([], [(''amount'', JNum NaN)])"
  by code_simp

end
